theory Spec2Isabelle
  imports Complex_Main
begin

section \<open>Steady Navier-Stokes solver: the Picard engine of SteadyNavierStokes.cpp\<close>

text \<open>
  The development embeds the parts of \<^verbatim>\<open>src/src/SteadyNavierStokes.cpp\<close> that the
  specification talks about: the element loops of \<^verbatim>\<open>Stokes<dim>::assemble\<close> and
  \<^verbatim>\<open>IncrementalStokes<dim>::assemble\<close>, the Picard loop of
  \<^verbatim>\<open>IncrementalStokes<dim>::solve\<close> with its norm reduction, and the point-pressure
  reduction of \<^verbatim>\<open>IncrementalStokes<dim>::compute_lift_drag\<close>.

  A C++ \<^verbatim>\<open>double\<close> is modelled as a \<^typ>\<open>real\<close>: rounding, infinities and NaN are
  outside the model. An \<^verbatim>\<open>unsigned int\<close> counter is a \<^typ>\<open>nat\<close>; the only counter that
  matters, \<^verbatim>\<open>iter\<close>, never exceeds \<^verbatim>\<open>maxIter = 10\<close>. What the finite-element library
  computes (shape values, quadrature weights, the Krylov solve, the constraint
  operations) is an input of the model, never a definition of it.
\<close>

subsection \<open>Errors\<close>

datatype error =
    ExcPointNotAvailableHere
  | ExcAccessToNonLocalElement nat
  | NoConvergence nat

subsection \<open>Point-pressure sampling (compute_lift_drag, lines 974-1019)\<close>

text \<open>
  On every worker \<^verbatim>\<open>VectorTools::point_value\<close> either fills \<^verbatim>\<open>solution_values\<close>
  (\<^verbatim>\<open>dim + 1\<close> entries) or raises \<^verbatim>\<open>ExcPointNotAvailableHere\<close>, which the handler
  turns into \<^verbatim>\<open>p_available = false\<close>. The worker's contribution is the pressure
  component \<^verbatim>\<open>solution_values(dim)\<close> when available and the initial \<^verbatim>\<open>0.0\<close> otherwise.
  \<open>None\<close> stands for the caught exception.
\<close>

definition pres_point :: "nat \<Rightarrow> real list option \<Rightarrow> real" where
  "pres_point dm r =
     (case r of
        None \<Rightarrow> 0
      | Some solution_values \<Rightarrow> solution_values ! dm)"

text \<open>
  \<^verbatim>\<open>MPI_Reduce(..., MPI_MAX, 0, MPI_COMM_WORLD)\<close>: the maximum of the workers'
  contributions, delivered on rank 0. A communicator holds at least one worker; for
  the empty list the receive buffer keeps its initial \<^verbatim>\<open>0.0\<close>.
\<close>

fun mpi_reduce_max :: "real list \<Rightarrow> real" where
  "mpi_reduce_max [] = 0"
| "mpi_reduce_max (x # xs) = fold max xs x"

definition global_pres_point :: "nat \<Rightarrow> real list option list \<Rightarrow> real" where
  "global_pres_point dm rs = mpi_reduce_max (map (pres_point dm) rs)"

subsection \<open>Constants (Incremental_stokes.hpp, lines 93-100)\<close>

text \<open>
  \<^verbatim>\<open>SteadyNavierStokes.cpp\<close> includes a header that is not among the sources; the
  members it uses are declared for the non-template class in
  \<^verbatim>\<open>Incremental_stokes.hpp\<close>: \<^verbatim>\<open>maxIter = 10\<close>, \<^verbatim>\<open>update_tol = 1e-7\<close> and
  \<^verbatim>\<open>p_out = 0\<close>. The assembly functions below take the outlet pressure as an
  argument, so that they say what the loops do for any declared value.
\<close>

definition maxIter :: nat where
  "maxIter = 10"

definition update_tol :: real where
  "update_tol = 1 / 10 ^ 7"

definition p_out :: real where
  "p_out = 0"

subsection \<open>Distributed vectors and the update norm (solve, lines 790-802)\<close>

type_synonym vec = "real list"

text \<open>
  The index sets of one worker (\<^verbatim>\<open>setup\<close>, lines 530-532). \<^verbatim>\<open>solution\<close> is laid out
  by \<^verbatim>\<open>reinit(block_owned_dofs, block_relevant_dofs, ...)\<close> and \<^verbatim>\<open>new_res\<close> by
  \<^verbatim>\<open>reinit(solution)\<close>: on a worker both hold the locally owned entries and the ghost
  entries. A list of type \<^typ>\<open>vec\<close> holds the values of all entries; a worker
  reads the ones it stores.
\<close>

record worker =
  locally_owned_dofs :: "nat set"
  locally_relevant_dofs :: "nat set"

text \<open>
  \<^verbatim>\<open>new_res(k)\<close> on a worker: the stored value, and the library's
  \<^verbatim>\<open>ExcAccessToNonLocalElement\<close> for an entry the worker does not store.
\<close>

definition entry :: "worker \<Rightarrow> vec \<Rightarrow> nat \<Rightarrow> error + real" where
  "entry w v k =
     (if k \<in> locally_owned_dofs w \<union> locally_relevant_dofs w
      then Inr (v ! k)
      else Inl (ExcAccessToNonLocalElement k))"

text \<open>
  \<^verbatim>\<open>for (k = 0; k < new_res.size(); ++k) local_sum += new_res(k) * new_res(k);\<close>
  The bound is the global size of the vector, on every worker.
\<close>

fun sum_squares :: "worker \<Rightarrow> vec \<Rightarrow> nat list \<Rightarrow> real \<Rightarrow> error + real" where
  "sum_squares w v [] local_sum = Inr local_sum"
| "sum_squares w v (k # ks) local_sum =
     (case entry w v k of
        Inl e \<Rightarrow> Inl e
      | Inr x \<Rightarrow> sum_squares w v ks (local_sum + x * x))"

definition local_sum :: "worker \<Rightarrow> vec \<Rightarrow> error + real" where
  "local_sum w v = sum_squares w v [0..<length v] 0"

text \<open>
  \<^verbatim>\<open>MPI_Allreduce(&local_sum, &global_sum, 1, MPI_DOUBLE, MPI_SUM, MPI_COMM_WORLD)\<close>:
  the sum of the workers' values; a worker that stopped with an error stops the run.
\<close>

fun mpi_allreduce_sum :: "(error + real) list \<Rightarrow> error + real" where
  "mpi_allreduce_sum [] = Inr 0"
| "mpi_allreduce_sum (r # rs) =
     (case r of
        Inl e \<Rightarrow> Inl e
      | Inr x \<Rightarrow> (case mpi_allreduce_sum rs of
                   Inl e \<Rightarrow> Inl e
                 | Inr s \<Rightarrow> Inr (x + s)))"

definition update_norm :: "worker list \<Rightarrow> vec \<Rightarrow> error + real" where
  "update_norm ws v =
     (case mpi_allreduce_sum (map (\<lambda>w. local_sum w v) ws) of
        Inl e \<Rightarrow> Inl e
      | Inr global_sum \<Rightarrow> Inr (sqrt global_sum))"

text \<open>The L2 norm of a full vector, as one process computes it.\<close>

definition l2_norm :: "vec \<Rightarrow> real" where
  "l2_norm v = sqrt (\<Sum>x\<leftarrow>v. x * x)"

subsection \<open>Tensors\<close>

text \<open>
  \<^verbatim>\<open>Tensor<1, dim>\<close> and \<^verbatim>\<open>Tensor<2, dim>\<close> are indexed by components below
  \<^verbatim>\<open>dim\<close>. The operations are the library's: \<^verbatim>\<open>scalar_product\<close> contracts all
  indices, \<^verbatim>\<open>operator*\<close> contracts the last index of its left argument with the
  first index of its right argument, \<^verbatim>\<open>transpose\<close> swaps the two indices.
\<close>

type_synonym tensor1 = "nat \<Rightarrow> real"
type_synonym tensor2 = "nat \<Rightarrow> nat \<Rightarrow> real"

definition dot :: "nat \<Rightarrow> tensor1 \<Rightarrow> tensor1 \<Rightarrow> real" where
  "dot dm a b = (\<Sum>k\<leftarrow>[0..<dm]. a k * b k)"

definition scalar_product2 :: "nat \<Rightarrow> tensor2 \<Rightarrow> tensor2 \<Rightarrow> real" where
  "scalar_product2 dm A B = (\<Sum>k\<leftarrow>[0..<dm]. \<Sum>l\<leftarrow>[0..<dm]. A k l * B k l)"

definition transpose2 :: "tensor2 \<Rightarrow> tensor2" where
  "transpose2 T = (\<lambda>k l. T l k)"

definition times12 :: "nat \<Rightarrow> tensor1 \<Rightarrow> tensor2 \<Rightarrow> tensor1" where
  "times12 dm a T = (\<lambda>k. \<Sum>l\<leftarrow>[0..<dm]. a l * T l k)"

subsection \<open>Mesh cells with their finite-element data\<close>

text \<open>
  What \<^verbatim>\<open>fe_face_values.reinit(cell, f)\<close> and the face accessors provide for one
  face: quadrature index \<open>q\<close>, local degree of freedom \<open>i\<close>.
\<close>

record face =
  face_at_boundary :: bool
  boundary_id :: nat
  normal_vector :: "nat \<Rightarrow> tensor1"
  face_value_u :: "nat \<Rightarrow> nat \<Rightarrow> tensor1"
  face_JxW :: "nat \<Rightarrow> real"

text \<open>
  What \<^verbatim>\<open>fe_values.reinit(cell)\<close> provides for one cell: the velocity extractor's
  \<^verbatim>\<open>value(i, q)\<close>, \<^verbatim>\<open>gradient(i, q)\<close>, \<^verbatim>\<open>divergence(i, q)\<close>, the pressure
  extractor's \<^verbatim>\<open>value(i, q)\<close>, the weights \<^verbatim>\<open>JxW(q)\<close>, the forcing term at the
  quadrature points, and the evaluation of a finite-element vector at the quadrature
  points (\<^verbatim>\<open>get_function_values\<close>, \<^verbatim>\<open>get_function_gradients\<close>).
\<close>

record cell =
  is_locally_owned :: bool
  at_boundary :: bool
  faces :: "face list"
  dof_indices :: "nat list"
  JxW :: "nat \<Rightarrow> real"
  value_u :: "nat \<Rightarrow> nat \<Rightarrow> tensor1"
  gradient_u :: "nat \<Rightarrow> nat \<Rightarrow> tensor2"
  divergence_u :: "nat \<Rightarrow> nat \<Rightarrow> real"
  value_p :: "nat \<Rightarrow> nat \<Rightarrow> real"
  forcing :: "nat \<Rightarrow> tensor1"
  get_function_values :: "vec \<Rightarrow> nat \<Rightarrow> tensor1"
  get_function_gradients :: "vec \<Rightarrow> nat \<Rightarrow> tensor2"

record params =
  dimn :: nat
  dofs_per_cell :: nat
  n_q :: nat
  n_q_face :: nat
  nu :: real

type_synonym full_matrix = "nat \<Rightarrow> nat \<Rightarrow> real"

text \<open>\<^verbatim>\<open>M(i, j) += x\<close> and \<^verbatim>\<open>v(i) += x\<close>.\<close>

definition add_entry :: "full_matrix \<Rightarrow> nat \<Rightarrow> nat \<Rightarrow> real \<Rightarrow> full_matrix" where
  "add_entry M i j x = M(i := (M i)(j := M i j + x))"

definition add_at :: "(nat \<Rightarrow> real) \<Rightarrow> nat \<Rightarrow> real \<Rightarrow> (nat \<Rightarrow> real)" where
  "add_at v i x = v(i := v i + x)"

subsection \<open>The Neumann face loop\<close>

text \<open>
  The loops over \<open>q\<close> and \<open>i\<close> on one selected face:
  \<^verbatim>\<open>rhs(i) += -p_out * scalar_product(normal_vector(q), value(i, q)) * JxW(q)\<close>.
\<close>

definition neumann_face :: "params \<Rightarrow> real \<Rightarrow> face \<Rightarrow> (nat \<Rightarrow> real) \<Rightarrow> (nat \<Rightarrow> real)" where
  "neumann_face P pout f rhs =
     fold (\<lambda>q r.
       fold (\<lambda>i r'.
         add_at r' i (- pout * dot (dimn P) (normal_vector f q) (face_value_u f i q)
                        * face_JxW f q))
         [0..<dofs_per_cell P] r)
       [0..<n_q_face P] rhs"

text \<open>
  The loop over the faces of a boundary cell. The three copies in the sources differ
  only in the boundary id they select: \<open>1\<close> in \<^verbatim>\<open>Stokes<dim>::assemble\<close> (line 314),
  \<open>2\<close> in \<^verbatim>\<open>IncrementalStokes<dim>::assemble\<close> (line 724) and \<open>2\<close> in
  \<^verbatim>\<open>steady_to_fix/Stokes.cpp\<close> (line 217).
\<close>

definition neumann_faces ::
  "nat \<Rightarrow> params \<Rightarrow> real \<Rightarrow> cell \<Rightarrow> (nat \<Rightarrow> real) \<Rightarrow> (nat \<Rightarrow> real)" where
  "neumann_faces bid P pout c rhs =
     (if at_boundary c
      then fold (\<lambda>f r. if face_at_boundary f \<and> boundary_id f = bid
                        then neumann_face P pout f r else r)
             (faces c) rhs
      else rhs)"

subsection \<open>Stokes<dim>::assemble, one cell (lines 264-330)\<close>

record stokes_local =
  cell_matrix :: full_matrix
  cell_pressure_mass_matrix :: full_matrix
  cell_rhs :: "nat \<Rightarrow> real"

definition stokes_ij ::
  "params \<Rightarrow> cell \<Rightarrow> nat \<Rightarrow> nat \<Rightarrow> nat \<Rightarrow> stokes_local \<Rightarrow> stokes_local" where
  "stokes_ij P c q i j L =
     (let m1 = add_entry (cell_matrix L) i j
                 (nu P * scalar_product2 (dimn P) (gradient_u c i q) (gradient_u c j q)
                  * JxW c q);
          m2 = add_entry m1 i j (- (divergence_u c i q * value_p c j q * JxW c q));
          m3 = add_entry m2 i j (- (divergence_u c j q * value_p c i q * JxW c q));
          pm = add_entry (cell_pressure_mass_matrix L) i j
                 (value_p c i q * value_p c j q / nu P * JxW c q)
      in L\<lparr>cell_matrix := m3, cell_pressure_mass_matrix := pm\<rparr>)"

definition stokes_i :: "params \<Rightarrow> cell \<Rightarrow> nat \<Rightarrow> nat \<Rightarrow> stokes_local \<Rightarrow> stokes_local" where
  "stokes_i P c q i L =
     (let L' = fold (stokes_ij P c q i) [0..<dofs_per_cell P] L
      in L'\<lparr>cell_rhs := add_at (cell_rhs L') i
                (dot (dimn P) (forcing c q) (value_u c i q) * JxW c q)\<rparr>)"

definition stokes_volume :: "params \<Rightarrow> cell \<Rightarrow> stokes_local" where
  "stokes_volume P c =
     fold (\<lambda>q. fold (stokes_i P c q) [0..<dofs_per_cell P]) [0..<n_q P]
       \<lparr>cell_matrix = (\<lambda>_ _. 0), cell_pressure_mass_matrix = (\<lambda>_ _. 0),
        cell_rhs = (\<lambda>_. 0)\<rparr>"

definition stokes_cell :: "params \<Rightarrow> real \<Rightarrow> cell \<Rightarrow> stokes_local" where
  "stokes_cell P pout c =
     (let L = stokes_volume P c
      in L\<lparr>cell_rhs := neumann_faces 1 P pout c (cell_rhs L)\<rparr>)"

text \<open>The same cell in \<^verbatim>\<open>steady_to_fix/Stokes.cpp\<close> (lines 162-235): boundary id 2.\<close>

definition stokes_to_fix_cell :: "params \<Rightarrow> real \<Rightarrow> cell \<Rightarrow> stokes_local" where
  "stokes_to_fix_cell P pout c =
     (let L = stokes_volume P c
      in L\<lparr>cell_rhs := neumann_faces 2 P pout c (cell_rhs L)\<rparr>)"

subsection \<open>IncrementalStokes<dim>::assemble, one cell (lines 670-739)\<close>

record inc_local =
  local_matrix :: full_matrix
  local_rhs :: "nat \<Rightarrow> real"

text \<open>
  \<open>pv\<close> and \<open>pg\<close> are \<^verbatim>\<open>previous_velocity_values\<close> and
  \<^verbatim>\<open>previous_velocity_gradients\<close>. The arrays \<^verbatim>\<open>phi_u\<close>, \<^verbatim>\<open>grad_phi_u\<close>,
  \<^verbatim>\<open>div_phi_u\<close>, \<^verbatim>\<open>phi_p\<close> are copies of the cell's shape data at \<open>q\<close>.
\<close>

definition incremental_ij ::
  "params \<Rightarrow> cell \<Rightarrow> (nat \<Rightarrow> tensor1) \<Rightarrow> (nat \<Rightarrow> tensor2) \<Rightarrow> nat \<Rightarrow> nat \<Rightarrow> nat
   \<Rightarrow> inc_local \<Rightarrow> inc_local" where
  "incremental_ij P c pv pg q i j L =
     (let m1 = add_entry (local_matrix L) i j
                 (nu P * scalar_product2 (dimn P) (gradient_u c i q) (gradient_u c j q)
                  * JxW c q);
          m2 = add_entry m1 i j
                 (dot (dimn P) (times12 (dimn P) (value_u c j q) (transpose2 (pg q)))
                    (value_u c i q) * JxW c q);
          m3 = add_entry m2 i j
                 (dot (dimn P) (times12 (dimn P) (pv q) (transpose2 (gradient_u c j q)))
                    (value_u c i q) * JxW c q);
          m4 = add_entry m3 i j (- (value_p c j q * divergence_u c i q * JxW c q));
          m5 = add_entry m4 i j (- (value_p c i q * divergence_u c j q * JxW c q))
      in L\<lparr>local_matrix := m5\<rparr>)"

definition incremental_i ::
  "params \<Rightarrow> cell \<Rightarrow> (nat \<Rightarrow> tensor1) \<Rightarrow> (nat \<Rightarrow> tensor2) \<Rightarrow> nat \<Rightarrow> nat
   \<Rightarrow> inc_local \<Rightarrow> inc_local" where
  "incremental_i P c pv pg q i L =
     (let L' = fold (incremental_ij P c pv pg q i) [0..<dofs_per_cell P] L
      in L'\<lparr>local_rhs := add_at (local_rhs L') i
                (dot (dimn P) (times12 (dimn P) (pv q) (transpose2 (pg q)))
                   (value_u c i q) * JxW c q)\<rparr>)"

definition incremental_volume :: "params \<Rightarrow> vec \<Rightarrow> cell \<Rightarrow> inc_local" where
  "incremental_volume P sol_old c =
     (let pv = get_function_values c sol_old;
          pg = get_function_gradients c sol_old
      in fold (\<lambda>q. fold (incremental_i P c pv pg q) [0..<dofs_per_cell P]) [0..<n_q P]
           \<lparr>local_matrix = (\<lambda>_ _. 0), local_rhs = (\<lambda>_. 0)\<rparr>)"

definition incremental_cell :: "params \<Rightarrow> real \<Rightarrow> vec \<Rightarrow> cell \<Rightarrow> inc_local" where
  "incremental_cell P pout sol_old c =
     (let L = incremental_volume P sol_old c
      in L\<lparr>local_rhs := neumann_faces 2 P pout c (local_rhs L)\<rparr>)"

subsection \<open>Global state and the library's operations\<close>

text \<open>
  The member variables of the solver classes that the modelled functions read or
  write.
\<close>

record state =
  iter :: nat
  system_matrix :: full_matrix
  system_rhs :: "nat \<Rightarrow> real"
  pressure_mass :: full_matrix
  solution_owned :: vec
  solution :: vec
  solution_old :: vec
  new_res :: vec

text \<open>
  The problem data and the operations of the finite-element library, as parameters:
  the active cells with their data, the workers' index sets,
  \<^verbatim>\<open>constraints.distribute_local_to_global\<close> (which by its signature changes the
  system matrix and right-hand side only), \<^verbatim>\<open>compress(VectorOperation::add)\<close>,
  \<^verbatim>\<open>MatrixTools::apply_boundary_values\<close>, \<^verbatim>\<open>constraints.set_zero\<close>,
  \<^verbatim>\<open>constraints.distribute\<close>, and the two GMRES solves: the one of
  \<^verbatim>\<open>IncrementalStokes<dim>::solve\<close> with \<^verbatim>\<open>SolverControl(2'000'000, 1e-4)\<close> and the
  identity preconditioner (system matrix, guess, right-hand side), and the one of
  \<^verbatim>\<open>Stokes<dim>::solve\<close> with \<^verbatim>\<open>SolverControl(2000, 1e-6 * system_rhs.l2_norm())\<close>
  and the block-triangular preconditioner built from the system matrix and the
  pressure-mass matrix. A solve returns the new vector and \<^verbatim>\<open>last_step()\<close>, or
  raises: the library's solvers raise \<^verbatim>\<open>SolverControl::NoConvergence\<close> when the
  control reports failure.
\<close>

record env =
  prm :: params
  cells :: "cell list"
  workers :: "worker list"
  distribute_local_to_global ::
    "inc_local \<Rightarrow> nat list \<Rightarrow> full_matrix \<times> (nat \<Rightarrow> real) \<Rightarrow> full_matrix \<times> (nat \<Rightarrow> real)"
  compress_matrix :: "full_matrix \<Rightarrow> full_matrix"
  compress_vector :: "(nat \<Rightarrow> real) \<Rightarrow> (nat \<Rightarrow> real)"
  apply_boundary_values ::
    "full_matrix \<times> vec \<times> (nat \<Rightarrow> real) \<Rightarrow> full_matrix \<times> vec \<times> (nat \<Rightarrow> real)"
  set_zero :: "vec \<Rightarrow> vec"
  gmres :: "full_matrix \<Rightarrow> vec \<Rightarrow> (nat \<Rightarrow> real) \<Rightarrow> error + vec \<times> nat"
  gmres_block_triangular ::
    "full_matrix \<Rightarrow> full_matrix \<Rightarrow> vec \<Rightarrow> (nat \<Rightarrow> real) \<Rightarrow> error + vec \<times> nat"
  distribute :: "vec \<Rightarrow> vec"

subsection \<open>Stokes<dim>::assemble (lines 252-380)\<close>

text \<open>
  \<^verbatim>\<open>system_matrix.add(dof_indices, cell_matrix)\<close> and
  \<^verbatim>\<open>system_rhs.add(dof_indices, cell_rhs)\<close>: entry \<open>(i, j)\<close> of the cell goes to
  entry \<open>(dof_indices[i], dof_indices[j])\<close> of the global object.
\<close>

definition matrix_add :: "nat list \<Rightarrow> full_matrix \<Rightarrow> full_matrix \<Rightarrow> full_matrix" where
  "matrix_add idx M G =
     fold (\<lambda>i G'. fold (\<lambda>j G''. add_entry G'' (idx ! i) (idx ! j) (M i j))
                     [0..<length idx] G')
       [0..<length idx] G"

definition vector_add :: "nat list \<Rightarrow> (nat \<Rightarrow> real) \<Rightarrow> (nat \<Rightarrow> real) \<Rightarrow> (nat \<Rightarrow> real)" where
  "vector_add idx v g = fold (\<lambda>i g'. add_at g' (idx ! i) (v i)) [0..<length idx] g"

definition stokes_scatter :: "params \<Rightarrow> real \<Rightarrow> cell \<Rightarrow> state \<Rightarrow> state" where
  "stokes_scatter P pout c s =
     (if \<not> is_locally_owned c then s
      else (let L = stokes_cell P pout c
            in s\<lparr>system_matrix := matrix_add (dof_indices c) (cell_matrix L) (system_matrix s),
                  system_rhs := vector_add (dof_indices c) (cell_rhs L) (system_rhs s),
                  pressure_mass := matrix_add (dof_indices c) (cell_pressure_mass_matrix L)
                                     (pressure_mass s)\<rparr>))"

text \<open>The zeroing of the three objects and the loop over the cells (lines 252-336).\<close>

definition stokes_cell_loop :: "real \<Rightarrow> env \<Rightarrow> state \<Rightarrow> state" where
  "stokes_cell_loop pout e s =
     fold (stokes_scatter (prm e) pout) (cells e)
       (s\<lparr>system_matrix := (\<lambda>_ _. 0), system_rhs := (\<lambda>_. 0),
          pressure_mass := (\<lambda>_ _. 0)\<rparr>)"

definition stokes_assemble :: "real \<Rightarrow> env \<Rightarrow> state \<Rightarrow> state" where
  "stokes_assemble pout e s =
     (let s1 = stokes_cell_loop pout e s;
          r = apply_boundary_values e
                (compress_matrix e (system_matrix s1), solution_owned s1,
                 compress_vector e (system_rhs s1))
      in s1\<lparr>system_matrix := fst r, solution_owned := fst (snd r),
             system_rhs := snd (snd r),
             pressure_mass := compress_matrix e (pressure_mass s1)\<rparr>)"

subsection \<open>Stokes<dim>::solve (lines 384-406)\<close>

text \<open>
  The call of the solver has no handler, and the function looks at neither the
  returned vector nor \<^verbatim>\<open>last_step()\<close> (it prints the latter).
\<close>

definition stokes_solve :: "env \<Rightarrow> state \<Rightarrow> error + state" where
  "stokes_solve e s =
     (case gmres_block_triangular e (system_matrix s) (pressure_mass s) (solution_owned s)
             (system_rhs s) of
        Inl err \<Rightarrow> Inl err
      | Inr (x, last_step) \<Rightarrow> Inr (s\<lparr>solution_owned := x, solution := x\<rparr>))"

subsection \<open>IncrementalStokes<dim>::assemble (lines 631-752)\<close>

text \<open>
  The loop over the cells for a given element routine \<open>local\<close>. The function zeroes
  \<^verbatim>\<open>system_matrix\<close> and \<^verbatim>\<open>system_rhs\<close>; it has no statement about
  \<^verbatim>\<open>pressure_mass\<close>.
\<close>

definition assemble_cells :: "(cell \<Rightarrow> inc_local) \<Rightarrow> env \<Rightarrow> state \<Rightarrow> state" where
  "assemble_cells local e s =
     (let sys = fold (\<lambda>c sys. if \<not> is_locally_owned c then sys
                               else distribute_local_to_global e (local c) (dof_indices c) sys)
                  (cells e) ((\<lambda>_ _. 0), (\<lambda>_. 0))
      in s\<lparr>system_matrix := compress_matrix e (fst sys),
            system_rhs := compress_vector e (snd sys)\<rparr>)"

definition incremental_assemble :: "env \<Rightarrow> state \<Rightarrow> state" where
  "incremental_assemble e s =
     assemble_cells (incremental_cell (prm e) p_out (solution_old s)) e s"

subsection \<open>IncrementalStokes<dim>::solve (lines 756-816)\<close>

text \<open>
  The \<^verbatim>\<open>else\<close> branch of the loop body up to the final test: the solve from the
  zeroed guess, \<^verbatim>\<open>distribute\<close>, the copy to \<^verbatim>\<open>solution\<close>, the update
  \<^verbatim>\<open>new_res = solution; new_res.sadd(1.0, -1.0, solution_old)\<close>, its norm, and
  \<^verbatim>\<open>solution_old = solution\<close>. It returns the state and the local \<^verbatim>\<open>update_norm\<close>.
  The call of the solver has no handler. The prints are left out.
\<close>

definition picard_cycle :: "env \<Rightarrow> state \<Rightarrow> error + state \<times> real" where
  "picard_cycle e s =
     (case gmres e (system_matrix s) (set_zero e (solution_owned s)) (system_rhs s) of
        Inl err \<Rightarrow> Inl err
      | Inr (x, last_step) \<Rightarrow>
          (let owned = distribute e x;
               res = map2 (\<lambda>a b. 1 * a + (- 1) * b) owned (solution_old s)
           in case update_norm (workers e) res of
                Inl err \<Rightarrow> Inl err
              | Inr un \<Rightarrow>
                  Inr (s\<lparr>solution_owned := owned, solution := owned, new_res := res,
                         solution_old := owned\<rparr>, un)))"

text \<open>
  \<^verbatim>\<open>for (iter = 0; iter < maxIter; ++iter)\<close> from a given value of \<^verbatim>\<open>iter\<close>, with
  both \<^verbatim>\<open>break\<close> statements.
\<close>

function picard_loop :: "env \<Rightarrow> state \<Rightarrow> error + state" where
  "picard_loop e s =
     (if iter s < maxIter then
        (let s1 = incremental_assemble e s;
             update_norm0 = update_tol + 1
         in if update_norm0 < update_tol then Inr s1
            else (case picard_cycle e s1 of
                    Inl err \<Rightarrow> Inl err
                  | Inr (s2, un) \<Rightarrow>
                      if un < update_tol then Inr s2
                      else picard_loop e (s2\<lparr>iter := iter s2 + 1\<rparr>)))
      else Inr s)"
  by pat_completeness auto
termination
proof (relation "measure (\<lambda>(e, s). maxIter - iter s)")
  show "wf (measure (\<lambda>(e, s). maxIter - iter s))" by simp
next
  fix e s s1 update_norm0 x2 s2 un
  assume "iter s < maxIter" "s1 = incremental_assemble e s"
    and "picard_cycle e s1 = Inr x2" "(s2, un) = x2"
  then have "iter s2 = iter s"
    by (auto simp: picard_cycle_def incremental_assemble_def assemble_cells_def Let_def
             split: sum.splits prod.splits)
  with \<open>iter s < maxIter\<close>
  show "((e, s2\<lparr>iter := iter s2 + 1\<rparr>), e, s) \<in> measure (\<lambda>(e, s). maxIter - iter s)"
    by simp
qed

declare picard_loop.simps [simp del]

definition solve :: "env \<Rightarrow> state \<Rightarrow> error + state" where
  "solve e s = picard_loop e (s\<lparr>iter := 0\<rparr>)"

section \<open>Reference formulas and comparison definitions\<close>

text \<open>
  The definitions of this section are not translations of the code. They write down
  the formulas the specification names, a variant of the loop and a small mesh, for
  the theorems to compare the code with.

  \<open>convection dm a G b\<close> is \<open>((a \<cdot> \<nabla>) w) \<cdot> b\<close> for a field \<open>w\<close> with gradient
  \<open>G\<close>, where \<open>G k l\<close> is the derivative of component \<open>k\<close> in direction \<open>l\<close>.
\<close>

definition convection :: "nat \<Rightarrow> tensor1 \<Rightarrow> tensor2 \<Rightarrow> tensor1 \<Rightarrow> real" where
  "convection dm a G b = (\<Sum>k\<leftarrow>[0..<dm]. (\<Sum>l\<leftarrow>[0..<dm]. a l * G k l) * b k)"

text \<open>
  The integrand of the Picard-linearised element matrix: viscous term, the two
  convective terms \<open>(v\<^sub>j \<cdot> \<nabla>u\<^sub>p\<^sub>r\<^sub>e\<^sub>v) \<cdot> v\<^sub>i\<close> and \<open>(u\<^sub>p\<^sub>r\<^sub>e\<^sub>v \<cdot> \<nabla>v\<^sub>j) \<cdot> v\<^sub>i\<close>, and the
  two pressure-velocity couplings.
\<close>

definition picard_matrix_term ::
  "params \<Rightarrow> cell \<Rightarrow> (nat \<Rightarrow> tensor1) \<Rightarrow> (nat \<Rightarrow> tensor2) \<Rightarrow> nat \<Rightarrow> nat \<Rightarrow> nat \<Rightarrow> real" where
  "picard_matrix_term P c pv pg q i j =
     nu P * scalar_product2 (dimn P) (gradient_u c i q) (gradient_u c j q)
     + convection (dimn P) (value_u c j q) (pg q) (value_u c i q)
     + convection (dimn P) (pv q) (gradient_u c j q) (value_u c i q)
     - value_p c j q * divergence_u c i q
     - value_p c i q * divergence_u c j q"

definition stokes_matrix_term :: "params \<Rightarrow> cell \<Rightarrow> nat \<Rightarrow> nat \<Rightarrow> nat \<Rightarrow> real" where
  "stokes_matrix_term P c q i j =
     nu P * scalar_product2 (dimn P) (gradient_u c i q) (gradient_u c j q)
     - divergence_u c i q * value_p c j q
     - divergence_u c j q * value_p c i q"

text \<open>The integrand \<open>(1/\<nu>) p\<^sub>i p\<^sub>j\<close> of the pressure-mass matrix.\<close>

definition pressure_mass_term :: "params \<Rightarrow> cell \<Rightarrow> nat \<Rightarrow> nat \<Rightarrow> nat \<Rightarrow> real" where
  "pressure_mass_term P c q i j = 1 / nu P * (value_p c i q * value_p c j q)"

text \<open>
  A local degree of freedom is a pressure degree of freedom when its shape function
  has no velocity part: the velocity extractor gives zero value, gradient and
  divergence at every quadrature point. This is what the mixed element of
  \<^verbatim>\<open>setup\<close> (\<^verbatim>\<open>FESystem\<close> of \<^verbatim>\<open>dim\<close> velocity components and one pressure component)
  provides.
\<close>

definition is_pressure_dof :: "params \<Rightarrow> cell \<Rightarrow> nat \<Rightarrow> bool" where
  "is_pressure_dof P c i \<longleftrightarrow>
     (\<forall>q \<in> set [0..<n_q P]. divergence_u c i q = 0
        \<and> (\<forall>k \<in> set [0..<dimn P]. value_u c i q k = 0
             \<and> (\<forall>l \<in> set [0..<dimn P]. gradient_u c i q k l = 0)))"

text \<open>The update norm that the iteration starting in state \<open>s\<close> measures.\<close>

definition measured_norm :: "env \<Rightarrow> state \<Rightarrow> error + real" where
  "measured_norm e s =
     (case picard_cycle e (incremental_assemble e s) of
        Inl err \<Rightarrow> Inl err
      | Inr (s2, un) \<Rightarrow> Inr un)"

text \<open>The loop of \<^verbatim>\<open>solve\<close> with the test before the solve removed.\<close>

function picard_loop_live :: "env \<Rightarrow> state \<Rightarrow> error + state" where
  "picard_loop_live e s =
     (if iter s < maxIter then
        (case picard_cycle e (incremental_assemble e s) of
           Inl err \<Rightarrow> Inl err
         | Inr (s2, un) \<Rightarrow>
             if un < update_tol then Inr s2
             else picard_loop_live e (s2\<lparr>iter := iter s2 + 1\<rparr>))
      else Inr s)"
  by pat_completeness auto
termination
proof (relation "measure (\<lambda>(e, s). maxIter - iter s)")
  show "wf (measure (\<lambda>(e, s). maxIter - iter s))" by simp
next
  fix e s x2 s2 un
  assume "iter s < maxIter"
    and "picard_cycle e (incremental_assemble e s) = Inr x2" "(s2, un) = x2"
  then have "iter s2 = iter s"
    by (auto simp: picard_cycle_def incremental_assemble_def assemble_cells_def Let_def
             split: sum.splits prod.splits)
  with \<open>iter s < maxIter\<close>
  show "((e, s2\<lparr>iter := iter s2 + 1\<rparr>), e, s) \<in> measure (\<lambda>(e, s). maxIter - iter s)"
    by simp
qed

declare picard_loop_live.simps [simp del]



text \<open>
  What a global entry \<open>(r, r')\<close> receives from an element matrix scattered through
  the index list \<open>idx\<close>: the sum of the local entries whose indices map to it.
\<close>

definition scattered :: "nat list \<Rightarrow> full_matrix \<Rightarrow> nat \<Rightarrow> nat \<Rightarrow> real" where
  "scattered idx M r r' =
     (\<Sum>i\<leftarrow>[0..<length idx]. \<Sum>j\<leftarrow>[0..<length idx].
        if idx ! i = r \<and> idx ! j = r' then M i j else 0)"

text \<open>
  The environment in which every solver reports the step count \<open>f n\<close> where it
  reported \<open>n\<close>.
\<close>

definition relabel_counts :: "(nat \<Rightarrow> nat) \<Rightarrow> env \<Rightarrow> env" where
  "relabel_counts f e =
     e\<lparr>gmres := (\<lambda>A g b. map_sum id (\<lambda>(x, n). (x, f n)) (gmres e A g b)),
       gmres_block_triangular :=
         (\<lambda>A M g b. map_sum id (\<lambda>(x, n). (x, f n)) (gmres_block_triangular e A M g b))\<rparr>"



text \<open>
  The loop of \<^verbatim>\<open>solve\<close> with a bound on the number of its passes: \<open>None\<close> when
  the bound is used up before the loop has ended.
\<close>

fun picard_loop_fuel :: "nat \<Rightarrow> env \<Rightarrow> state \<Rightarrow> (error + state) option" where
  "picard_loop_fuel 0 e s = None"
| "picard_loop_fuel (Suc k) e s =
     (if iter s < maxIter then
        (let s1 = incremental_assemble e s;
             update_norm0 = update_tol + 1
         in if update_norm0 < update_tol then Some (Inr s1)
            else (case picard_cycle e s1 of
                    Inl err \<Rightarrow> Some (Inl err)
                  | Inr (s2, un) \<Rightarrow>
                      if un < update_tol then Some (Inr s2)
                      else picard_loop_fuel k e (s2\<lparr>iter := iter s2 + 1\<rparr>)))
      else Some (Inr s))"

subsection \<open>A one-cell mesh\<close>

text \<open>
  Two space dimensions, one quadrature point of weight 1, one degree of freedom per
  cell, viscosity 1. The velocity cell has the shape function \<open>(1, 0)\<close> with gradient
  \<open>\<partial>\<^sub>x\<close>-component 1; a finite-element vector \<open>[u]\<close> has the value \<open>(u, 0)\<close> and the
  gradient \<open>u\<close> times that of the shape function. The pressure cell has a single
  pressure shape function of value 1. Faces have the normal \<open>(1, 0)\<close>. The environment
  has one worker, no constraints, a scatter that adds entries, and solvers that
  return the vector \<open>x\<close> in one step.
\<close>

definition ex_params :: params where
  "ex_params = \<lparr>dimn = 2, dofs_per_cell = 1, n_q = 1, n_q_face = 1, nu = 1\<rparr>"

definition ex_face :: "nat \<Rightarrow> face" where
  "ex_face bid =
     \<lparr>face_at_boundary = True, boundary_id = bid,
      normal_vector = (\<lambda>q k. if k = 0 then 1 else 0),
      face_value_u = (\<lambda>i q k. if k = 0 then 1 else 0),
      face_JxW = (\<lambda>q. 1)\<rparr>"

definition ex_cell :: "face list \<Rightarrow> cell" where
  "ex_cell fs =
     \<lparr>is_locally_owned = True, at_boundary = (fs \<noteq> []), faces = fs, dof_indices = [0],
      JxW = (\<lambda>q. 1),
      value_u = (\<lambda>i q k. if k = 0 then 1 else 0),
      gradient_u = (\<lambda>i q k l. if k = 0 \<and> l = 0 then 1 else 0),
      divergence_u = (\<lambda>i q. 1),
      value_p = (\<lambda>i q. 0),
      forcing = (\<lambda>q k. 0),
      get_function_values = (\<lambda>v q k. if k = 0 then v ! 0 else 0),
      get_function_gradients = (\<lambda>v q k l. if k = 0 \<and> l = 0 then v ! 0 else 0)\<rparr>"

definition ex_pressure_cell :: cell where
  "ex_pressure_cell =
     \<lparr>is_locally_owned = True, at_boundary = False, faces = [], dof_indices = [0],
      JxW = (\<lambda>q. 1),
      value_u = (\<lambda>i q k. 0),
      gradient_u = (\<lambda>i q k l. 0),
      divergence_u = (\<lambda>i q. 0),
      value_p = (\<lambda>i q. 1),
      forcing = (\<lambda>q k. 0),
      get_function_values = (\<lambda>v q k. 0),
      get_function_gradients = (\<lambda>v q k l. 0)\<rparr>"

definition ex_env :: "cell \<Rightarrow> vec \<Rightarrow> env" where
  "ex_env c x =
     \<lparr>prm = ex_params, cells = [c],
      workers = [\<lparr>locally_owned_dofs = {0}, locally_relevant_dofs = {0}\<rparr>],
      distribute_local_to_global =
        (\<lambda>L idx sys. (matrix_add idx (local_matrix L) (fst sys),
                       vector_add idx (local_rhs L) (snd sys))),
      compress_matrix = (\<lambda>A. A), compress_vector = (\<lambda>b. b),
      apply_boundary_values = (\<lambda>r. r),
      set_zero = (\<lambda>v. v),
      gmres = (\<lambda>A guess b. Inr (x, 1)),
      gmres_block_triangular = (\<lambda>A M guess b. Inr (x, 1)),
      distribute = (\<lambda>v. v)\<rparr>"

text \<open>The same environment with solvers that stop after one step without converging.\<close>

definition ex_failing_env :: env where
  "ex_failing_env =
     (ex_env (ex_cell []) [])
       \<lparr>gmres := (\<lambda>A guess b. Inl (NoConvergence 1)),
        gmres_block_triangular := (\<lambda>A M guess b. Inl (NoConvergence 1))\<rparr>"

definition ex_state :: "vec \<Rightarrow> state" where
  "ex_state u =
     \<lparr>iter = 0, system_matrix = (\<lambda>_ _. 0), system_rhs = (\<lambda>_. 0),
      pressure_mass = (\<lambda>_ _. 0), solution_owned = u, solution = u, solution_old = u,
      new_res = []\<rparr>"

text \<open>
  The same environment with other workers: four workers that all hold entry 0 (one
  owns it, three hold it as a ghost), two workers that store one entry each, and a
  worker that stores no entry.
\<close>

definition ex_env_workers :: "worker list \<Rightarrow> cell \<Rightarrow> vec \<Rightarrow> env" where
  "ex_env_workers ws c x = (ex_env c x)\<lparr>workers := ws\<rparr>"


definition ex_split_workers :: "worker list" where
  "ex_split_workers =
     [\<lparr>locally_owned_dofs = {0}, locally_relevant_dofs = {0}\<rparr>,
      \<lparr>locally_owned_dofs = {1}, locally_relevant_dofs = {1}\<rparr>]"


text \<open>
  A cell with two degrees of freedom, a velocity one (index 0) and a pressure one
  (index 1, shape function of value 1), on a mesh with two unknowns.
\<close>

definition ex_params2 :: params where
  "ex_params2 = \<lparr>dimn = 2, dofs_per_cell = 2, n_q = 1, n_q_face = 1, nu = 1\<rparr>"

definition ex_mixed_cell :: cell where
  "ex_mixed_cell =
     \<lparr>is_locally_owned = True, at_boundary = False, faces = [], dof_indices = [0, 1],
      JxW = (\<lambda>q. 1),
      value_u = (\<lambda>i q k. if i = 0 \<and> k = 0 then 1 else 0),
      gradient_u = (\<lambda>i q k l. if i = 0 \<and> k = 0 \<and> l = 0 then 1 else 0),
      divergence_u = (\<lambda>i q. if i = 0 then 1 else 0),
      value_p = (\<lambda>i q. if i = 1 then 1 else 0),
      forcing = (\<lambda>q k. 0),
      get_function_values = (\<lambda>v q k. if k = 0 then v ! 0 else 0),
      get_function_gradients = (\<lambda>v q k l. if k = 0 \<and> l = 0 then v ! 0 else 0)\<rparr>"

definition ex_mixed_env :: env where
  "ex_mixed_env = (ex_env ex_mixed_cell [0, 0])\<lparr>prm := ex_params2\<rparr>"





section \<open>Properties\<close>

subsection \<open>Point-pressure reduction\<close>

lemma fold_max_zeros:
  "\<forall>y \<in> set xs. y = (0::real) \<Longrightarrow> 0 \<le> a \<Longrightarrow> fold max xs a = a"
  by (induction xs arbitrary: a) (auto simp: max_def)

lemma fold_max_ge: "(a::real) \<le> fold max xs a"
proof (induction xs arbitrary: a)
  case Nil
  show ?case by simp
next
  case (Cons x xs)
  have "a \<le> max x a" by simp
  also have "\<dots> \<le> fold max xs (max x a)" by (rule Cons.IH)
  finally show ?case by simp
qed

lemma fold_max_mono: "(a::real) \<le> b \<Longrightarrow> fold max xs a \<le> fold max xs b"
  by (induction xs arbitrary: a b) (auto simp: max_def)

lemma mpi_reduce_max_ge_member: "y \<in> set xs \<Longrightarrow> y \<le> mpi_reduce_max xs"
proof (induction xs rule: rev_induct)
  case Nil
  then show ?case by simp
next
  case (snoc x xs)
  show ?case
  proof (cases xs)
    case Nil
    with snoc.prems show ?thesis by simp
  next
    case (Cons z zs)
    have step: "mpi_reduce_max (xs @ [x]) = max x (mpi_reduce_max xs)"
      using Cons by simp
    show ?thesis
    proof (cases "y = x")
      case True
      then show ?thesis using step by simp
    next
      case False
      with snoc.prems have "y \<in> set xs" by simp
      then have "y \<le> mpi_reduce_max xs" by (rule snoc.IH)
      then show ?thesis using step by simp
    qed
  qed
qed

text \<open>
  What the reduction does deliver. When no worker holds the point the result is \<open>0\<close>;
  when one worker holds it with pressure \<open>p\<close> and all others report \<open>0\<close>, the result
  is \<open>max p 0\<close>, which is \<open>p\<close> only for a single worker or a non-negative pressure.
\<close>

lemma global_pres_point_none_available:
  "\<forall>r \<in> set rs. r = None \<Longrightarrow> global_pres_point dm rs = 0"
proof (cases rs)
  case Nil
  then show ?thesis by (simp add: global_pres_point_def)
next
  case (Cons r rs')
  assume a: "\<forall>r \<in> set rs. r = None"
  have "\<forall>y \<in> set (map (pres_point dm) rs'). y = 0"
    using a Cons by (auto simp: pres_point_def)
  then have "fold max (map (pres_point dm) rs') 0 = 0"
    by (rule fold_max_zeros) simp
  moreover have "pres_point dm r = 0" using a Cons by (simp add: pres_point_def)
  ultimately show ?thesis using Cons by (simp add: global_pres_point_def)
qed

lemma global_pres_point_unique_holder:
  assumes "rs = pre @ Some vals # post"
    and "\<forall>r \<in> set pre. r = None" and "\<forall>r \<in> set post. r = None"
    and "pre @ post \<noteq> []"
  shows "global_pres_point dm rs = max (vals ! dm) 0"
proof -
  let ?p = "vals ! dm"
  let ?xs = "map (pres_point dm) rs"
  have mem: "?p \<in> set ?xs" using assms(1) by (simp add: pres_point_def)
  have zero: "0 \<in> set ?xs"
  proof -
    from assms(4) obtain r where "r \<in> set pre \<union> set post"
      by (cases pre; cases post) auto
    then have r: "r = None" "r \<in> set rs" using assms by auto
    have "pres_point dm r = 0" using r(1) by (simp add: pres_point_def)
    moreover have "pres_point dm r \<in> set ?xs" using r(2) by simp
    ultimately show ?thesis by simp
  qed
  have all: "\<forall>y \<in> set ?xs. y = ?p \<or> y = 0"
    using assms by (auto simp: pres_point_def)
  have ne: "?xs \<noteq> []" using assms(1) by simp
  have upper: "mpi_reduce_max ?xs \<le> max ?p 0"
  proof -
    obtain x xs' where xs: "?xs = x # xs'" using ne by (cases ?xs) auto
    have "\<forall>y \<in> set (x # xs'). y \<le> max ?p 0" using all xs by (auto simp: max_def)
    then have "fold max xs' x \<le> max ?p 0"
      by (induction xs' arbitrary: x) (auto simp: max_def)
    then show ?thesis using xs by simp
  qed
  have "?p \<le> mpi_reduce_max ?xs" "0 \<le> mpi_reduce_max ?xs"
    using mem zero by (auto intro: mpi_reduce_max_ge_member)
  then have "max ?p 0 \<le> mpi_reduce_max ?xs" by simp
  with upper show ?thesis by (simp add: global_pres_point_def)
qed

text \<open>
  C7. Under the assumption that one worker evaluates the point and every other worker
  contributes zero, the pick-maximum reduction is claimed to yield the evaluating
  worker's pressure. With two workers in two dimensions, worker 0 holding the point
  with pressure \<open>-1\<close> and worker 1 not holding it, the reduction yields \<open>0\<close>,
  not \<open>-1\<close>.
\<close>

theorem pick_max_loses_negative_pressure:
  "global_pres_point 2 [Some [0, 0, -1], None] = 0
   \<and> pres_point 2 (Some [0, 0, -1]) = -1"
  by (simp add: global_pres_point_def pres_point_def)

subsection \<open>The update norm across workers\<close>

lemma upt_2: "[0..<2] = [0, Suc 0]"
  by (simp add: upt_rec numeral_2_eq_2)

lemma sqrt_sq: "sqrt (x * x) = \<bar>x\<bar>"
  by (simp add: real_sqrt_mult_self)

lemma sum_squares_stored:
  assumes "\<forall>k \<in> set ks. k \<in> locally_owned_dofs w \<union> locally_relevant_dofs w"
  shows "sum_squares w v ks acc = Inr (acc + (\<Sum>k\<leftarrow>ks. v ! k * v ! k))"
  using assms by (induction ks arbitrary: acc) (simp_all add: entry_def add.assoc)

lemma sum_list_nth_upt: "(\<Sum>k\<leftarrow>[0..<length v]. f (v ! k)) = (\<Sum>x\<leftarrow>v. f x)"
proof -
  have "map (\<lambda>k. f (v ! k)) [0..<length v] = map f (map ((!) v) [0..<length v])"
    by simp
  also have "\<dots> = map f v" by (simp only: map_nth)
  finally show ?thesis by simp
qed

lemma local_sum_stored:
  assumes "\<forall>k < length v. k \<in> locally_owned_dofs w \<union> locally_relevant_dofs w"
  shows "local_sum w v = Inr (\<Sum>x\<leftarrow>v. x * x)"
proof -
  have "sum_squares w v [0..<length v] 0 = Inr (0 + (\<Sum>k\<leftarrow>[0..<length v]. v ! k * v ! k))"
    by (rule sum_squares_stored) (use assms in simp)
  then show ?thesis
    by (simp add: local_sum_def sum_list_nth_upt [of "\<lambda>x. x * x"])
qed

lemma mpi_allreduce_sum_all_ok:
  "mpi_allreduce_sum (map (\<lambda>w. Inr (f w)) ws) = Inr (\<Sum>w\<leftarrow>ws. f w)"
  by (induction ws) simp_all

text \<open>
  When every worker stores every entry, each of them adds up the whole vector, and the
  reduced sum is the serial sum of squares times the number of workers.
\<close>

lemma update_norm_all_stored:
  assumes "\<forall>w \<in> set ws. \<forall>k < length v. k \<in> locally_owned_dofs w \<union> locally_relevant_dofs w"
  shows "update_norm ws v = Inr (sqrt (real (length ws) * (\<Sum>x\<leftarrow>v. x * x)))"
proof -
  have "map (\<lambda>w. local_sum w v) ws = map (\<lambda>w. Inr (\<Sum>x\<leftarrow>v. x * x)) ws"
    using assms by (intro map_cong refl local_sum_stored) simp
  then have "mpi_allreduce_sum (map (\<lambda>w. local_sum w v) ws)
             = Inr (\<Sum>w\<leftarrow>ws. (\<Sum>x\<leftarrow>v. x * x))"
    by (simp only: mpi_allreduce_sum_all_ok)
  then show ?thesis by (simp add: update_norm_def sum_list_triv)
qed


text \<open>
  C2. The reduced norm is claimed to equal the serial L2 norm of the update for every
  distribution of the degrees of freedom. Two workers, worker 0 owning entry 0 and
  worker 1 owning entry 1, each holding the other's entry as a ghost, and the update
  \<open>[3, 4]\<close>: every worker sums both squares, the reduced sum is 50 and the measured
  norm is \<open>sqrt 50\<close>, while the serial norm is 5.
\<close>

theorem update_norm_counts_ghost_entries_twice:
  "update_norm
     [\<lparr>locally_owned_dofs = {0}, locally_relevant_dofs = {0, 1}\<rparr>,
      \<lparr>locally_owned_dofs = {1}, locally_relevant_dofs = {0, 1}\<rparr>] [3, 4] = Inr (sqrt 50)
   \<and> l2_norm [3, 4] = 5
   \<and> sqrt 50 \<noteq> (5::real)"
proof -
  have s25: "sqrt 25 = (5::real)" using sqrt_sq [of 5] by simp
  have ne: "sqrt 50 \<noteq> (5::real)"
  proof
    assume "sqrt 50 = (5::real)"
    then have "(sqrt 50)\<^sup>2 = (5::real)\<^sup>2" by simp
    then show False by simp
  qed
  show ?thesis using ne
    by (simp add: update_norm_def local_sum_def entry_def l2_norm_def upt_2 s25)
qed

subsection \<open>The element loops in closed form\<close>

lemma add_entry_apply:
  "add_entry M i j x i' j' = M i' j' + (if i' = i \<and> j' = j then x else 0)"
  by (simp add: add_entry_def)

lemma add_at_apply: "add_at v i x i' = v i' + (if i' = i then x else 0)"
  by (simp add: add_at_def)

lemma sum_list_zero: "(\<And>x. x \<in> set xs \<Longrightarrow> f x = (0::real)) \<Longrightarrow> (\<Sum>x\<leftarrow>xs. f x) = 0"
  by (induction xs) auto

text \<open>
  The code's \<^verbatim>\<open>a * transpose(G) * b\<close> is the convective form \<open>((a \<cdot> \<nabla>) w) \<cdot> b\<close>.
\<close>

lemma dot_times12_transpose2:
  "dot dm (times12 dm a (transpose2 G)) b = convection dm a G b"
  by (simp add: dot_def times12_def transpose2_def convection_def)

lemma incremental_ij_matrix:
  "local_matrix (incremental_ij P c pv pg q i j L) i' j' =
     local_matrix L i' j'
     + (if i' = i \<and> j' = j then picard_matrix_term P c pv pg q i j * JxW c q else 0)"
  by (simp add: incremental_ij_def Let_def add_entry_apply dot_times12_transpose2
        picard_matrix_term_def algebra_simps)

lemma incremental_ij_rhs: "local_rhs (incremental_ij P c pv pg q i j L) = local_rhs L"
  by (simp add: incremental_ij_def Let_def)

lemma incremental_j_loop:
  "local_matrix (fold (incremental_ij P c pv pg q i) [0..<n] L) i' j' =
     local_matrix L i' j'
     + (if i' = i \<and> j' < n then picard_matrix_term P c pv pg q i j' * JxW c q else 0)"
  "local_rhs (fold (incremental_ij P c pv pg q i) [0..<n] L) = local_rhs L"
  by (induction n) (auto simp: incremental_ij_matrix incremental_ij_rhs less_Suc_eq)

lemma incremental_i_matrix:
  "local_matrix (incremental_i P c pv pg q i L) i' j' =
     local_matrix L i' j'
     + (if i' = i \<and> j' < dofs_per_cell P
        then picard_matrix_term P c pv pg q i j' * JxW c q else 0)"
  by (simp add: incremental_i_def Let_def incremental_j_loop)

lemma incremental_i_rhs:
  "local_rhs (incremental_i P c pv pg q i L) i' =
     local_rhs L i'
     + (if i' = i then convection (dimn P) (pv q) (pg q) (value_u c i q) * JxW c q else 0)"
  by (simp add: incremental_i_def Let_def incremental_j_loop add_at_apply
        dot_times12_transpose2)

lemma incremental_i_loop:
  "local_matrix (fold (incremental_i P c pv pg q) [0..<n] L) i' j' =
     local_matrix L i' j'
     + (if i' < n \<and> j' < dofs_per_cell P
        then picard_matrix_term P c pv pg q i' j' * JxW c q else 0)"
  "local_rhs (fold (incremental_i P c pv pg q) [0..<n] L) i' =
     local_rhs L i'
     + (if i' < n then convection (dimn P) (pv q) (pg q) (value_u c i' q) * JxW c q else 0)"
  by (induction n) (auto simp: incremental_i_matrix incremental_i_rhs less_Suc_eq)

lemma incremental_q_loop:
  "local_matrix (fold (\<lambda>q. fold (incremental_i P c pv pg q) [0..<dofs_per_cell P]) [0..<m] L)
     i' j' =
     local_matrix L i' j'
     + (if i' < dofs_per_cell P \<and> j' < dofs_per_cell P
        then (\<Sum>q\<leftarrow>[0..<m]. picard_matrix_term P c pv pg q i' j' * JxW c q) else 0)"
  "local_rhs (fold (\<lambda>q. fold (incremental_i P c pv pg q) [0..<dofs_per_cell P]) [0..<m] L) i' =
     local_rhs L i'
     + (if i' < dofs_per_cell P
        then (\<Sum>q\<leftarrow>[0..<m]. convection (dimn P) (pv q) (pg q) (value_u c i' q) * JxW c q)
        else 0)"
  by (induction m) (auto simp: incremental_i_loop)

lemma incremental_volume_matrix:
  "local_matrix (incremental_volume P sol c) i j =
     (if i < dofs_per_cell P \<and> j < dofs_per_cell P
      then (\<Sum>q\<leftarrow>[0..<n_q P].
              picard_matrix_term P c (get_function_values c sol) (get_function_gradients c sol)
                q i j * JxW c q)
      else 0)"
  by (simp add: incremental_volume_def Let_def incremental_q_loop)

lemma incremental_volume_rhs:
  "local_rhs (incremental_volume P sol c) i =
     (if i < dofs_per_cell P
      then (\<Sum>q\<leftarrow>[0..<n_q P].
              convection (dimn P) (get_function_values c sol q) (get_function_gradients c sol q)
                (value_u c i q) * JxW c q)
      else 0)"
  by (simp add: incremental_volume_def Let_def incremental_q_loop)

lemma incremental_cell_matrix:
  "local_matrix (incremental_cell P pout sol c) = local_matrix (incremental_volume P sol c)"
  by (simp add: incremental_cell_def Let_def)

lemmas ex_defs = ex_params_def ex_face_def ex_cell_def ex_pressure_cell_def ex_env_def
  ex_state_def

text \<open>
  C4. For local indices \<open>i\<close>, \<open>j\<close> of the cell, the local matrix of the incremental
  variant is the sum over the quadrature points of the viscous term, the two Picard
  convective terms \<open>(v\<^sub>j \<cdot> \<nabla>u\<^sub>p\<^sub>r\<^sub>e\<^sub>v) \<cdot> v\<^sub>i\<close> and \<open>(u\<^sub>p\<^sub>r\<^sub>e\<^sub>v \<cdot> \<nabla>v\<^sub>j) \<cdot> v\<^sub>i\<close> and the
  two pressure couplings, each times \<open>JxW\<close>; the local right-hand side is the sum of
  \<open>(u\<^sub>p\<^sub>r\<^sub>e\<^sub>v \<cdot> \<nabla>u\<^sub>p\<^sub>r\<^sub>e\<^sub>v) \<cdot> v\<^sub>i\<close> times \<open>JxW\<close>, to which the face loop adds its terms.
  The previous velocity and its gradient are the evaluations of \<^verbatim>\<open>solution_old\<close>.
  \<^const>\<open>assemble_cells\<close> calls the element routine for every locally owned cell.
\<close>

theorem incremental_cell_picard_terms:
  assumes "i < dofs_per_cell P" and "j < dofs_per_cell P"
  shows "local_matrix (incremental_cell P pout sol_old c) i j =
           (\<Sum>q\<leftarrow>[0..<n_q P].
              (nu P * scalar_product2 (dimn P) (gradient_u c i q) (gradient_u c j q)
               + convection (dimn P) (value_u c j q) (get_function_gradients c sol_old q)
                   (value_u c i q)
               + convection (dimn P) (get_function_values c sol_old q) (gradient_u c j q)
                   (value_u c i q)
               - value_p c j q * divergence_u c i q
               - value_p c i q * divergence_u c j q) * JxW c q)
         \<and> local_rhs (incremental_volume P sol_old c) i =
           (\<Sum>q\<leftarrow>[0..<n_q P].
              convection (dimn P) (get_function_values c sol_old q)
                (get_function_gradients c sol_old q) (value_u c i q) * JxW c q)
         \<and> local_rhs (incremental_cell P pout sol_old c) i =
           neumann_faces 2 P pout c (local_rhs (incremental_volume P sol_old c)) i"
  using assms
  by (simp add: incremental_cell_matrix incremental_volume_matrix incremental_volume_rhs
        picard_matrix_term_def incremental_cell_def Let_def)

theorem incremental_cell_picard_terms_witness:
  "0 < dofs_per_cell ex_params
   \<and> local_matrix (incremental_cell ex_params 0 [- 1] (ex_cell [])) 0 0 = - 1
   \<and> local_rhs (incremental_volume ex_params [- 1] (ex_cell [])) 0 = 1"
  using incremental_cell_picard_terms [of 0 ex_params 0 0 "[- 1]" "ex_cell []"]
  by (simp add: ex_defs upt_2 convection_def scalar_product2_def)

subsection \<open>The Neumann face term\<close>

lemma neumann_face_zero: "neumann_face P 0 f rhs = rhs"
proof -
  have inner: "fold (\<lambda>i r'. add_at r' i 0) xs r = r" for xs and r :: "nat \<Rightarrow> real"
    by (induction xs arbitrary: r) (simp_all add: add_at_def)
  have outer: "fold (\<lambda>q r. r) ys r = r" for ys :: "nat list" and r :: "nat \<Rightarrow> real"
    by (induction ys) simp_all
  show ?thesis by (simp add: neumann_face_def inner outer)
qed

lemma neumann_faces_zero: "neumann_faces bid P 0 c rhs = rhs"
proof -
  have "fold (\<lambda>f r. if face_at_boundary f \<and> boundary_id f = bid
                     then neumann_face P 0 f r else r) fs r = r" for fs r
    by (induction fs arbitrary: r) (simp_all add: neumann_face_zero)
  then show ?thesis by (simp add: neumann_faces_def)
qed

text \<open>
  Each copy of the face loop leaves the right-hand side alone on a cell none of whose
  faces is a boundary face with the boundary id that copy tests.
\<close>

lemma neumann_faces_none_selected:
  assumes "\<forall>f \<in> set (faces c). \<not> (face_at_boundary f \<and> boundary_id f = bid)"
  shows "neumann_faces bid P pout c rhs = rhs"
proof -
  have "fold (\<lambda>f r. if face_at_boundary f \<and> boundary_id f = bid
                     then neumann_face P pout f r else r) fs r = r"
    if "\<forall>f \<in> set fs. \<not> (face_at_boundary f \<and> boundary_id f = bid)" for fs r
    using that by (induction fs arbitrary: r) auto
  then show ?thesis using assms by (simp add: neumann_faces_def)
qed

text \<open>
  C10. With the declared \<^verbatim>\<open>p_out = 0\<close> the face loop adds zero to every entry: each
  element routine returns what it returns without the face loop, and the assembled
  system of the incremental variant is the one assembled from the volume terms alone.
\<close>

theorem zero_outlet_pressure_removes_face_loop:
  "incremental_cell P p_out sol_old c = incremental_volume P sol_old c
   \<and> stokes_cell P p_out c = stokes_volume P c
   \<and> stokes_to_fix_cell P p_out c = stokes_volume P c
   \<and> incremental_assemble e s
     = assemble_cells (incremental_volume (prm e) (solution_old s)) e s"
proof -
  have a: "incremental_cell P p_out sol c = incremental_volume P sol c" for P sol c
    by (simp add: incremental_cell_def p_out_def neumann_faces_zero Let_def)
  have "incremental_cell (prm e) p_out (solution_old s)
        = incremental_volume (prm e) (solution_old s)"
    using a by auto
  then show ?thesis using a
    by (simp add: stokes_cell_def stokes_to_fix_cell_def incremental_assemble_def p_out_def
          neumann_faces_zero Let_def)
qed





text \<open>
  The face test of \<^verbatim>\<open>IncrementalStokes<dim>::assemble\<close> compares the boundary id
  with 2, the id of the walls, where \<^verbatim>\<open>Stokes<dim>::assemble\<close> compares it with 1.
  With the declared \<^verbatim>\<open>p_out = 0\<close> every face term is zero and the choice of the id
  changes no entry. It would with another outlet pressure: at outlet pressure 1 the
  incremental element routine adds \<open>-1\<close> for a wall face and nothing for an outlet
  face.
\<close>

lemma face_tests_at_unit_outlet_pressure:
  "local_rhs (incremental_cell ex_params 1 [0] (ex_cell [ex_face 2])) 0 = - 1
   \<and> local_rhs (incremental_cell ex_params 1 [0] (ex_cell [ex_face 1])) 0 = 0
   \<and> cell_rhs (stokes_cell ex_params 1 (ex_cell [ex_face 1])) 0 = - 1
   \<and> cell_rhs (stokes_cell ex_params 1 (ex_cell [ex_face 2])) 0 = 0"
  by (simp add: incremental_cell_def incremental_volume_def incremental_i_def
      incremental_ij_def stokes_cell_def stokes_volume_def stokes_i_def stokes_ij_def
      neumann_faces_def neumann_face_def Let_def ex_defs upt_2 add_entry_def add_at_def
      dot_def times12_def transpose2_def scalar_product2_def)


subsection \<open>The Stokes element loops and the scatter in closed form\<close>

lemma stokes_ij_apply:
  "cell_matrix (stokes_ij P c q i j L) i' j' =
     cell_matrix L i' j'
     + (if i' = i \<and> j' = j then stokes_matrix_term P c q i j * JxW c q else 0)"
  "cell_pressure_mass_matrix (stokes_ij P c q i j L) i' j' =
     cell_pressure_mass_matrix L i' j'
     + (if i' = i \<and> j' = j then pressure_mass_term P c q i j * JxW c q else 0)"
  "cell_rhs (stokes_ij P c q i j L) = cell_rhs L"
  by (simp_all add: stokes_ij_def Let_def add_entry_apply stokes_matrix_term_def
        pressure_mass_term_def algebra_simps)

lemma stokes_j_loop:
  "cell_matrix (fold (stokes_ij P c q i) [0..<n] L) i' j' =
     cell_matrix L i' j'
     + (if i' = i \<and> j' < n then stokes_matrix_term P c q i j' * JxW c q else 0)"
  "cell_pressure_mass_matrix (fold (stokes_ij P c q i) [0..<n] L) i' j' =
     cell_pressure_mass_matrix L i' j'
     + (if i' = i \<and> j' < n then pressure_mass_term P c q i j' * JxW c q else 0)"
  "cell_rhs (fold (stokes_ij P c q i) [0..<n] L) = cell_rhs L"
  by (induction n) (auto simp: stokes_ij_apply less_Suc_eq)

lemma stokes_i_apply:
  "cell_matrix (stokes_i P c q i L) i' j' =
     cell_matrix L i' j'
     + (if i' = i \<and> j' < dofs_per_cell P then stokes_matrix_term P c q i j' * JxW c q else 0)"
  "cell_pressure_mass_matrix (stokes_i P c q i L) i' j' =
     cell_pressure_mass_matrix L i' j'
     + (if i' = i \<and> j' < dofs_per_cell P then pressure_mass_term P c q i j' * JxW c q else 0)"
  by (simp_all add: stokes_i_def Let_def stokes_j_loop)

lemma stokes_i_loop:
  "cell_matrix (fold (stokes_i P c q) [0..<n] L) i' j' =
     cell_matrix L i' j'
     + (if i' < n \<and> j' < dofs_per_cell P then stokes_matrix_term P c q i' j' * JxW c q else 0)"
  "cell_pressure_mass_matrix (fold (stokes_i P c q) [0..<n] L) i' j' =
     cell_pressure_mass_matrix L i' j'
     + (if i' < n \<and> j' < dofs_per_cell P then pressure_mass_term P c q i' j' * JxW c q else 0)"
  by (induction n) (auto simp: stokes_i_apply less_Suc_eq)

lemma stokes_q_loop:
  "cell_matrix (fold (\<lambda>q. fold (stokes_i P c q) [0..<dofs_per_cell P]) [0..<m] L) i' j' =
     cell_matrix L i' j'
     + (if i' < dofs_per_cell P \<and> j' < dofs_per_cell P
        then (\<Sum>q\<leftarrow>[0..<m]. stokes_matrix_term P c q i' j' * JxW c q) else 0)"
  "cell_pressure_mass_matrix
     (fold (\<lambda>q. fold (stokes_i P c q) [0..<dofs_per_cell P]) [0..<m] L) i' j' =
     cell_pressure_mass_matrix L i' j'
     + (if i' < dofs_per_cell P \<and> j' < dofs_per_cell P
        then (\<Sum>q\<leftarrow>[0..<m]. pressure_mass_term P c q i' j' * JxW c q) else 0)"
  by (induction m) (auto simp: stokes_i_loop)

lemma stokes_volume_apply:
  "cell_matrix (stokes_volume P c) i j =
     (if i < dofs_per_cell P \<and> j < dofs_per_cell P
      then (\<Sum>q\<leftarrow>[0..<n_q P]. stokes_matrix_term P c q i j * JxW c q) else 0)"
  "cell_pressure_mass_matrix (stokes_volume P c) i j =
     (if i < dofs_per_cell P \<and> j < dofs_per_cell P
      then (\<Sum>q\<leftarrow>[0..<n_q P]. pressure_mass_term P c q i j * JxW c q) else 0)"
  by (simp_all add: stokes_volume_def stokes_q_loop)

lemma stokes_cell_matrix:
  "cell_matrix (stokes_cell P pout c) = cell_matrix (stokes_volume P c)"
  "cell_pressure_mass_matrix (stokes_cell P pout c)
   = cell_pressure_mass_matrix (stokes_volume P c)"
  by (simp_all add: stokes_cell_def Let_def)

lemma matrix_add_inner:
  "fold (\<lambda>j G. add_entry G a (idx ! j) (M i j)) [0..<n] G r c =
     G r c + (\<Sum>j\<leftarrow>[0..<n]. if a = r \<and> idx ! j = c then M i j else 0)"
  by (induction n) (auto simp: add_entry_apply)

lemma matrix_add_outer:
  "fold (\<lambda>i G'. fold (\<lambda>j G''. add_entry G'' (idx ! i) (idx ! j) (M i j)) [0..<m] G')
     [0..<n] G r c =
     G r c + (\<Sum>i\<leftarrow>[0..<n]. \<Sum>j\<leftarrow>[0..<m]. if idx ! i = r \<and> idx ! j = c then M i j else 0)"
  by (induction n) (simp_all add: matrix_add_inner)

text \<open>An entry of the global matrix receives the cell entries whose indices map to it.\<close>

lemma matrix_add_apply:
  "matrix_add idx M G r c =
     G r c + (\<Sum>i\<leftarrow>[0..<length idx]. \<Sum>j\<leftarrow>[0..<length idx].
                if idx ! i = r \<and> idx ! j = c then M i j else 0)"
  by (simp add: matrix_add_def matrix_add_outer)

lemma matrix_add_no_change:
  assumes "\<And>i j. i < length idx \<Longrightarrow> j < length idx \<Longrightarrow> idx ! i = r \<Longrightarrow> idx ! j = c
             \<Longrightarrow> M i j = 0"
  shows "matrix_add idx M G r c = G r c"
proof -
  have "(\<Sum>i\<leftarrow>[0..<length idx]. \<Sum>j\<leftarrow>[0..<length idx].
           if idx ! i = r \<and> idx ! j = c then M i j else 0) = 0"
    by (intro sum_list_zero) (auto simp: assms)
  then show ?thesis by (simp add: matrix_add_apply)
qed

subsection \<open>The Picard loop: one step, exits, independence of the pressure mass\<close>

lemma assemble_fields:
  "iter (incremental_assemble e s) = iter s"
  "solution_old (incremental_assemble e s) = solution_old s"
  "solution_owned (incremental_assemble e s) = solution_owned s"
  "pressure_mass (incremental_assemble e s) = pressure_mass s"
  by (simp_all add: incremental_assemble_def assemble_cells_def Let_def)

lemma picard_cycle_fields:
  assumes "picard_cycle e s = Inr (s2, un)"
  shows "iter s2 = iter s" "solution_old s2 = solution s2" "solution_owned s2 = solution s2"
    "update_norm (workers e) (new_res s2) = Inr un"
    "pressure_mass s2 = pressure_mass s"
  using assms
  by (auto simp: picard_cycle_def Let_def split: sum.splits prod.splits)

lemma pretest_dead: "\<not> update_tol + 1 < update_tol"
  by simp

text \<open>The loop body as the code runs it: the test before the solve never fires.\<close>

lemma picard_loop_step:
  "picard_loop e s =
     (if iter s < maxIter then
        (case picard_cycle e (incremental_assemble e s) of
           Inl err \<Rightarrow> Inl err
         | Inr (s2, un) \<Rightarrow>
             if un < update_tol then Inr s2
             else picard_loop e (s2\<lparr>iter := iter s + 1\<rparr>))
      else Inr s)"
proof (cases "iter s < maxIter")
  case False
  then show ?thesis by (subst picard_loop.simps) simp
next
  case True
  show ?thesis
  proof (cases "picard_cycle e (incremental_assemble e s)")
    case (Inl err)
    then show ?thesis using True by (subst picard_loop.simps) (simp add: Let_def)
  next
    case (Inr r)
    obtain s2 un where r: "r = (s2, un)" by (cases r)
    have "iter s2 = iter s"
      using picard_cycle_fields(1) [of e "incremental_assemble e s" s2 un] Inr r
      by (simp add: assemble_fields)
    then show ?thesis using True Inr r
      by (subst picard_loop.simps) (simp add: Let_def)
  qed
qed

lemma picard_loop_eq_live: "picard_loop e s = picard_loop_live e s"
proof (induction e s rule: picard_loop_live.induct)
  case (1 e s)
  show ?case
  proof (cases "iter s < maxIter")
    case False
    then show ?thesis
      by (subst picard_loop.simps, subst picard_loop_live.simps) simp
  next
    case True
    show ?thesis
    proof (cases "picard_cycle e (incremental_assemble e s)")
      case (Inl err)
      then show ?thesis using True
        by (subst picard_loop.simps, subst picard_loop_live.simps) (simp add: Let_def)
    next
      case (Inr r)
      obtain s2 un where r: "r = (s2, un)" by (cases r)
      show ?thesis
      proof (cases "un < update_tol")
        case True
        then show ?thesis using \<open>iter s < maxIter\<close> Inr r
          by (subst picard_loop.simps, subst picard_loop_live.simps) (simp add: Let_def)
      next
        case False
        have "picard_loop e (s2\<lparr>iter := iter s2 + 1\<rparr>)
              = picard_loop_live e (s2\<lparr>iter := iter s2 + 1\<rparr>)"
          using "1.IH" [OF \<open>iter s < maxIter\<close> Inr r [symmetric] False] .
        then show ?thesis using \<open>iter s < maxIter\<close> Inr r False
          by (subst picard_loop.simps, subst picard_loop_live.simps) (simp add: Let_def)
      qed
    qed
  qed
qed

lemma picard_loop_exit:
  "picard_loop e s = Inr s' \<Longrightarrow> iter s < maxIter \<Longrightarrow>
     iter s \<le> iter s' \<and> iter s' \<le> maxIter
     \<and> (iter s' < maxIter \<longleftrightarrow>
          (\<exists>d. update_norm (workers e) (new_res s') = Inr d \<and> d < update_tol))"
proof (induction e s rule: picard_loop.induct)
  case (1 e s)
  let ?s1 = "incremental_assemble e s"
  from "1.prems" obtain s2 un where cyc: "picard_cycle e ?s1 = Inr (s2, un)"
    by (subst (asm) picard_loop_step) (auto split: sum.splits)
  note f = picard_cycle_fields [OF cyc]
  have it: "iter s2 = iter s" using f(1) by (simp add: assemble_fields)
  show ?case
  proof (cases "un < update_tol")
    case True
    then have "s' = s2" using "1.prems" cyc
      by (subst (asm) picard_loop_step) simp
    then show ?thesis using True f it "1.prems"(2) by auto
  next
    case False
    let ?s3 = "s2\<lparr>iter := iter s2 + 1\<rparr>"
    have next_eq: "picard_loop e ?s3 = Inr s'"
      using "1.prems" cyc False it by (subst (asm) picard_loop_step) simp
    show ?thesis
    proof (cases "iter ?s3 < maxIter")
      case True
      from "1.IH" [OF "1.prems"(2) refl refl pretest_dead cyc refl False next_eq True]
      show ?thesis using it by simp
    next
      case False
      then have "s' = ?s3" using next_eq by (subst (asm) picard_loop_step) simp
      moreover have "iter ?s3 = maxIter" using False it "1.prems"(2) by simp
      ultimately show ?thesis using f it \<open>\<not> un < update_tol\<close> by auto
    qed
  qed
qed

lemma assemble_pressure_mass_update:
  "incremental_assemble e (s\<lparr>pressure_mass := M\<rparr>)
   = (incremental_assemble e s)\<lparr>pressure_mass := M\<rparr>"
  by (simp add: incremental_assemble_def assemble_cells_def Let_def)

lemma cycle_pressure_mass_update:
  "picard_cycle e (s\<lparr>pressure_mass := M\<rparr>)
   = (case picard_cycle e s of
        Inl err \<Rightarrow> Inl err
      | Inr (s2, d) \<Rightarrow> Inr (s2\<lparr>pressure_mass := M\<rparr>, d))"
  by (simp add: picard_cycle_def Let_def split: sum.splits prod.splits)

text \<open>
  Changing \<^verbatim>\<open>pressure_mass\<close> before the loop changes nothing in its result but that
  field: the assembly, the solve and the update norm never read it.
\<close>

lemma picard_loop_pressure_mass_update:
  "picard_loop e (s\<lparr>pressure_mass := M\<rparr>)
   = map_sum id (\<lambda>s'. s'\<lparr>pressure_mass := M\<rparr>) (picard_loop e s)"
proof (induction e s rule: picard_loop.induct)
  case (1 e s)
  show ?case
  proof (cases "iter s < maxIter")
    case False
    then show ?thesis
      by (subst picard_loop_step, subst (2) picard_loop_step) simp
  next
    case True
    show ?thesis
    proof (cases "picard_cycle e (incremental_assemble e s)")
      case (Inl err)
      then show ?thesis using True
        by (subst picard_loop_step, subst (2) picard_loop_step)
           (simp add: assemble_pressure_mass_update cycle_pressure_mass_update)
    next
      case (Inr r)
      obtain s2 un where r: "r = (s2, un)" by (cases r)
      have it: "iter s2 = iter s"
        using picard_cycle_fields(1) [of e "incremental_assemble e s" s2 un] Inr r
        by (simp add: assemble_fields)
      show ?thesis
      proof (cases "un < update_tol")
        case True
        then show ?thesis using \<open>iter s < maxIter\<close> Inr r
          by (subst picard_loop_step, subst (2) picard_loop_step)
             (simp add: assemble_pressure_mass_update cycle_pressure_mass_update)
      next
        case False
        have ih: "picard_loop e (s2\<lparr>iter := iter s2 + 1\<rparr>\<lparr>pressure_mass := M\<rparr>)
              = map_sum id (\<lambda>s'. s'\<lparr>pressure_mass := M\<rparr>)
                  (picard_loop e (s2\<lparr>iter := iter s2 + 1\<rparr>))"
          using "1.IH" [OF \<open>iter s < maxIter\<close> refl refl pretest_dead Inr r [symmetric] False] .
        have ih': "picard_loop e (s2\<lparr>pressure_mass := M, iter := Suc (iter s)\<rparr>)
              = map_sum id (\<lambda>s'. s'\<lparr>pressure_mass := M\<rparr>)
                  (picard_loop e (s2\<lparr>iter := Suc (iter s)\<rparr>))"
        proof -
          have sw: "s2\<lparr>pressure_mass := M, iter := Suc (iter s)\<rparr>
                = s2\<lparr>iter := iter s2 + 1\<rparr>\<lparr>pressure_mass := M\<rparr>"
            using it by (cases s2) simp
          have e1: "s2\<lparr>iter := iter s2 + 1\<rparr> = s2\<lparr>iter := Suc (iter s)\<rparr>"
            by (simp add: it)
          have ih2: "picard_loop e (s2\<lparr>iter := Suc (iter s)\<rparr>\<lparr>pressure_mass := M\<rparr>)
              = map_sum id (\<lambda>s'. s'\<lparr>pressure_mass := M\<rparr>)
                  (picard_loop e (s2\<lparr>iter := Suc (iter s)\<rparr>))"
            using ih by (simp only: e1)
          show ?thesis by (simp only: sw e1 ih2)
        qed
        show ?thesis using \<open>iter s < maxIter\<close> Inr r False
          by (subst picard_loop_step, subst (2) picard_loop_step)
             (simp add: assemble_pressure_mass_update cycle_pressure_mass_update ih')
      qed
    qed
  qed
qed

subsection \<open>The pressure-pressure block and the pressure-mass matrix\<close>

lemma pressure_dof_terms:
  assumes "is_pressure_dof P c i" "is_pressure_dof P c j" "q < n_q P"
  shows "stokes_matrix_term P c q i j = 0" "picard_matrix_term P c pv pg q i j = 0"
proof -
  have d: "divergence_u c i q = 0" "divergence_u c j q = 0"
    using assms by (auto simp: is_pressure_dof_def)
  have v: "\<And>k. k < dimn P \<Longrightarrow> value_u c i q k = 0"
    using assms by (auto simp: is_pressure_dof_def)
  have g: "\<And>k l. k < dimn P \<Longrightarrow> l < dimn P \<Longrightarrow> gradient_u c i q k l = 0"
    using assms by (auto simp: is_pressure_dof_def)
  have sp: "scalar_product2 (dimn P) (gradient_u c i q) (gradient_u c j q) = 0"
    unfolding scalar_product2_def by (intro sum_list_zero) (simp add: g)
  have cv: "convection (dimn P) a G (value_u c i q) = 0" for a G
    unfolding convection_def by (intro sum_list_zero) (simp add: v)
  show "stokes_matrix_term P c q i j = 0"
    by (simp add: stokes_matrix_term_def d sp)
  show "picard_matrix_term P c pv pg q i j = 0"
    by (simp add: picard_matrix_term_def d sp cv)
qed

lemma pressure_block_zero_cell:
  assumes "is_pressure_dof P c i" "is_pressure_dof P c j"
  shows "cell_matrix (stokes_volume P c) i j = 0"
    and "local_matrix (incremental_volume P sol c) i j = 0"
proof -
  show "cell_matrix (stokes_volume P c) i j = 0"
    unfolding stokes_volume_apply
    by (auto intro!: sum_list_zero simp: pressure_dof_terms [OF assms])
  show "local_matrix (incremental_volume P sol c) i j = 0"
    unfolding incremental_volume_matrix
    by (auto intro!: sum_list_zero simp: pressure_dof_terms [OF assms])
qed

lemma stokes_scatter_pressure_block:
  assumes "is_locally_owned c \<longrightarrow>
            (\<forall>i < length (dof_indices c). n_u \<le> dof_indices c ! i \<longrightarrow> is_pressure_dof P c i)"
    and "n_u \<le> r" "n_u \<le> r'"
  shows "system_matrix (stokes_scatter P pout c s) r r' = system_matrix s r r'"
proof (cases "is_locally_owned c")
  case False
  then show ?thesis by (simp add: stokes_scatter_def)
next
  case True
  have "matrix_add (dof_indices c) (cell_matrix (stokes_cell P pout c)) (system_matrix s) r r'
        = system_matrix s r r'"
  proof (rule matrix_add_no_change)
    fix i j
    assume "i < length (dof_indices c)" "j < length (dof_indices c)"
      "dof_indices c ! i = r" "dof_indices c ! j = r'"
    then have "is_pressure_dof P c i" "is_pressure_dof P c j"
      using assms True by auto
    then show "cell_matrix (stokes_cell P pout c) i j = 0"
      by (simp add: stokes_cell_matrix pressure_block_zero_cell)
  qed
  then show ?thesis using True by (simp add: stokes_scatter_def Let_def)
qed

lemma stokes_fold_pressure_block:
  assumes "\<forall>c \<in> set cs. is_locally_owned c \<longrightarrow>
            (\<forall>i < length (dof_indices c). n_u \<le> dof_indices c ! i \<longrightarrow> is_pressure_dof P c i)"
    and "n_u \<le> r" "n_u \<le> r'"
  shows "system_matrix (fold (stokes_scatter P pout) cs s) r r' = system_matrix s r r'"
  using assms
proof (induction cs arbitrary: s)
  case Nil
  show ?case by simp
next
  case (Cons c cs)
  have "system_matrix (fold (stokes_scatter P pout) cs (stokes_scatter P pout c s)) r r'
        = system_matrix (stokes_scatter P pout c s) r r'"
    using Cons by simp
  also have "\<dots> = system_matrix s r r'"
    using Cons.prems by (intro stokes_scatter_pressure_block) auto
  finally show ?case by simp
qed

text \<open>
  With velocity unknowns numbered below \<open>n_u\<close> and pressure unknowns from \<open>n_u\<close> on
  (\<^verbatim>\<open>DoFRenumbering::component_wise\<close>), the cell loop of \<^verbatim>\<open>Stokes<dim>::assemble\<close>
  leaves the pressure-pressure block of the system matrix zero.
\<close>

lemma stokes_cell_loop_pressure_block:
  assumes "\<forall>c \<in> set (cells e). is_locally_owned c \<longrightarrow>
            (\<forall>i < length (dof_indices c). n_u \<le> dof_indices c ! i \<longrightarrow>
               is_pressure_dof (prm e) c i)"
    and "n_u \<le> r" "n_u \<le> r'"
  shows "system_matrix (stokes_cell_loop pout e s) r r' = 0"
  using stokes_fold_pressure_block [OF assms]
  by (simp add: stokes_cell_loop_def)

lemma stokes_cell_loop_pm_indep:
  "stokes_cell_loop pout e (s\<lparr>pressure_mass := M\<rparr>) = stokes_cell_loop pout e s"
  by (simp add: stokes_cell_loop_def)

lemma ex_pressure_dof: "is_pressure_dof ex_params ex_pressure_cell 0"
  by (simp add: is_pressure_dof_def ex_defs)

lemma matrix_add_scattered: "matrix_add idx M G r r' = G r r' + scattered idx M r r'"
  by (simp add: matrix_add_apply scattered_def)

lemma stokes_scatter_apply:
  "system_matrix (stokes_scatter P pout c s) r r' =
     system_matrix s r r'
     + (if is_locally_owned c
        then scattered (dof_indices c) (cell_matrix (stokes_cell P pout c)) r r' else 0)"
  "pressure_mass (stokes_scatter P pout c s) r r' =
     pressure_mass s r r'
     + (if is_locally_owned c
        then scattered (dof_indices c) (cell_pressure_mass_matrix (stokes_cell P pout c)) r r'
        else 0)"
  by (simp_all add: stokes_scatter_def Let_def matrix_add_scattered)

lemma stokes_fold_apply:
  "system_matrix (fold (stokes_scatter P pout) cs s) r r' =
     system_matrix s r r'
     + (\<Sum>c\<leftarrow>filter is_locally_owned cs.
          scattered (dof_indices c) (cell_matrix (stokes_cell P pout c)) r r')"
  "pressure_mass (fold (stokes_scatter P pout) cs s) r r' =
     pressure_mass s r r'
     + (\<Sum>c\<leftarrow>filter is_locally_owned cs.
          scattered (dof_indices c) (cell_pressure_mass_matrix (stokes_cell P pout c)) r r')"
  by (induction cs arbitrary: s) (simp_all add: stokes_scatter_apply)

lemma stokes_cell_closed:
  "cell_matrix (stokes_cell P pout c) =
     (\<lambda>i j. if i < dofs_per_cell P \<and> j < dofs_per_cell P
            then (\<Sum>q\<leftarrow>[0..<n_q P]. stokes_matrix_term P c q i j * JxW c q) else 0)"
  "cell_pressure_mass_matrix (stokes_cell P pout c) =
     (\<lambda>i j. if i < dofs_per_cell P \<and> j < dofs_per_cell P
            then (\<Sum>q\<leftarrow>[0..<n_q P]. 1 / nu P * (value_p c i q * value_p c j q) * JxW c q)
            else 0)"
  by (intro ext, simp add: stokes_cell_matrix stokes_volume_apply pressure_mass_term_def)+

lemma stokes_cell_loop_apply:
  "system_matrix (stokes_cell_loop pout e s) r r' =
     (\<Sum>c\<leftarrow>filter is_locally_owned (cells e).
        scattered (dof_indices c)
          (\<lambda>i j. if i < dofs_per_cell (prm e) \<and> j < dofs_per_cell (prm e)
                 then (\<Sum>q\<leftarrow>[0..<n_q (prm e)]. stokes_matrix_term (prm e) c q i j * JxW c q)
                 else 0) r r')"
  "pressure_mass (stokes_cell_loop pout e s) r r' =
     (\<Sum>c\<leftarrow>filter is_locally_owned (cells e).
        scattered (dof_indices c)
          (\<lambda>i j. if i < dofs_per_cell (prm e) \<and> j < dofs_per_cell (prm e)
                 then (\<Sum>q\<leftarrow>[0..<n_q (prm e)].
                         1 / nu (prm e) * (value_p c i q * value_p c j q) * JxW c q)
                 else 0) r r')"
  by (simp_all add: stokes_cell_loop_def stokes_fold_apply stokes_cell_closed)

text \<open>
  C6, as claimed: in every assembly pass a pressure-mass matrix with entries
  \<open>(1/\<nu>) (p\<^sub>i, p\<^sub>j)\<close> is assembled alongside the system. On the mesh with one pressure
  cell that entry is 1. \<^verbatim>\<open>IncrementalStokes<dim>::assemble\<close> leaves the \<open>0\<close> that
  \<^verbatim>\<open>setup\<close> put there; the cell loop of \<^verbatim>\<open>Stokes<dim>::assemble\<close> stores the 1.
\<close>

theorem incremental_assemble_skips_pressure_mass:
  "pressure_mass (incremental_assemble (ex_env ex_pressure_cell [0]) (ex_state [0])) 0 0 = 0
   \<and> (\<Sum>q\<leftarrow>[0..<n_q ex_params].
         1 / nu ex_params * (value_p ex_pressure_cell 0 q * value_p ex_pressure_cell 0 q)
         * JxW ex_pressure_cell q) = 1
   \<and> pressure_mass (stokes_cell_loop 0 (ex_env ex_pressure_cell [0]) (ex_state [0])) 0 0 = 1"
  by (simp add: assemble_fields stokes_cell_loop_def stokes_scatter_def stokes_cell_matrix
      matrix_add_apply stokes_volume_apply pressure_mass_term_def Let_def ex_defs)

text \<open>
  C6, amended. For two pressure degrees of freedom of a cell the entry of the element
  matrix is zero in both variants, and when the global indices from \<open>n\<^sub>u\<close> on belong
  to pressure degrees of freedom, the cell loop of \<^verbatim>\<open>Stokes<dim>::assemble\<close> leaves
  the entries \<open>(r, r')\<close> with \<open>n\<^sub>u \<le> r, r'\<close> of the system matrix zero. That cell loop
  fills the system matrix with the scattered sums \<open>\<Sum>\<^sub>q stokes_matrix_term JxW\<close> and
  the pressure-mass matrix with the scattered sums \<open>\<Sum>\<^sub>q (1/\<nu>) p\<^sub>i p\<^sub>j JxW\<close> of the
  locally owned cells. \<^verbatim>\<open>IncrementalStokes<dim>::assemble\<close> does not touch
  \<^verbatim>\<open>pressure_mass\<close>. The cell loop of \<^verbatim>\<open>Stokes<dim>::assemble\<close> does not read the
  \<^verbatim>\<open>pressure_mass\<close> it starts from, and the Picard loop with its update (residual)
  vector returns the same result whatever \<^verbatim>\<open>pressure_mass\<close> holds.
\<close>

theorem pressure_block_and_pressure_mass:
  assumes "is_pressure_dof P c i" and "is_pressure_dof P c j"
    and "\<forall>c \<in> set (cells e). is_locally_owned c \<longrightarrow>
           (\<forall>i < length (dof_indices c). n_u \<le> dof_indices c ! i \<longrightarrow>
              is_pressure_dof (prm e) c i)"
    and "n_u \<le> r" and "n_u \<le> r'"
  shows "cell_matrix (stokes_cell P pout c) i j = 0
    \<and> local_matrix (incremental_cell P pout sol_old c) i j = 0
    \<and> system_matrix (stokes_cell_loop pout e s) r r' = 0
    \<and> system_matrix (stokes_cell_loop pout e s) a a' =
        (\<Sum>c\<leftarrow>filter is_locally_owned (cells e).
           scattered (dof_indices c)
             (\<lambda>i j. if i < dofs_per_cell (prm e) \<and> j < dofs_per_cell (prm e)
                    then (\<Sum>q\<leftarrow>[0..<n_q (prm e)]. stokes_matrix_term (prm e) c q i j * JxW c q)
                    else 0) a a')
    \<and> pressure_mass (stokes_cell_loop pout e s) a a' =
        (\<Sum>c\<leftarrow>filter is_locally_owned (cells e).
           scattered (dof_indices c)
             (\<lambda>i j. if i < dofs_per_cell (prm e) \<and> j < dofs_per_cell (prm e)
                    then (\<Sum>q\<leftarrow>[0..<n_q (prm e)].
                            1 / nu (prm e) * (value_p c i q * value_p c j q) * JxW c q)
                    else 0) a a')
    \<and> pressure_mass (incremental_assemble e s) = pressure_mass s
    \<and> stokes_cell_loop pout e (s\<lparr>pressure_mass := M\<rparr>) = stokes_cell_loop pout e s
    \<and> picard_loop e (s\<lparr>pressure_mass := M\<rparr>)
        = map_sum id (\<lambda>s'. s'\<lparr>pressure_mass := M\<rparr>) (picard_loop e s)"
proof -
  have a: "cell_matrix (stokes_cell P pout c) i j = 0"
    using assms(1,2) by (simp add: stokes_cell_matrix pressure_block_zero_cell)
  have b: "local_matrix (incremental_cell P pout sol_old c) i j = 0"
    using assms(1,2) by (simp add: incremental_cell_matrix pressure_block_zero_cell)
  have g: "system_matrix (stokes_cell_loop pout e s) r r' = 0"
    using assms(3-5) by (rule stokes_cell_loop_pressure_block)
  show ?thesis
    using a b g stokes_cell_loop_apply [of pout e s a a']
    by (simp only: assemble_fields stokes_cell_loop_pm_indep picard_loop_pressure_mass_update
          simp_thms)
qed

lemma ex_mixed_pressure_dof: "is_pressure_dof ex_params2 ex_mixed_cell 1"
  by (simp add: is_pressure_dof_def ex_params2_def ex_mixed_cell_def)

lemma ex_mixed_fields:
  "prm ex_mixed_env = ex_params2" "cells ex_mixed_env = [ex_mixed_cell]"
  "is_locally_owned ex_mixed_cell" "dof_indices ex_mixed_cell = [0, 1]"
  by (simp_all add: ex_mixed_env_def ex_env_def ex_mixed_cell_def)

theorem pressure_block_and_pressure_mass_witness:
  "is_pressure_dof ex_params2 ex_mixed_cell 1
   \<and> system_matrix (stokes_cell_loop 0 ex_mixed_env (ex_state [0, 0])) 0 0 = 1
   \<and> system_matrix (stokes_cell_loop 0 ex_mixed_env (ex_state [0, 0])) 0 1 = - 1
   \<and> system_matrix (stokes_cell_loop 0 ex_mixed_env (ex_state [0, 0])) 1 0 = - 1
   \<and> system_matrix (stokes_cell_loop 0 ex_mixed_env (ex_state [0, 0])) 1 1 = 0
   \<and> pressure_mass (stokes_cell_loop 0 ex_mixed_env (ex_state [0, 0])) 1 1 = 1
   \<and> pressure_mass (stokes_cell_loop 0 ex_mixed_env (ex_state [0, 0])) 0 0 = 0
   \<and> cell_matrix (stokes_cell ex_params2 0 ex_mixed_cell) 1 1 = 0
   \<and> local_matrix (incremental_cell ex_params2 0 [0, 0] ex_mixed_cell) 1 1 = 0"
proof -
  have h: "\<forall>c \<in> set (cells ex_mixed_env). is_locally_owned c \<longrightarrow>
           (\<forall>i < length (dof_indices c). 1 \<le> dof_indices c ! i \<longrightarrow>
              is_pressure_dof (prm ex_mixed_env) c i)"
    using ex_mixed_pressure_dof by (auto simp: ex_mixed_fields less_Suc_eq numeral_2_eq_2)
  have o: "(1::nat) \<le> 1" by simp
  note t = pressure_block_and_pressure_mass [OF ex_mixed_pressure_dof ex_mixed_pressure_dof
      h o o, of 0 "[0, 0]" "ex_state [0, 0]"]
  have ev: "stokes_matrix_term ex_params2 ex_mixed_cell 0 0 0 = 1"
    "stokes_matrix_term ex_params2 ex_mixed_cell 0 0 (Suc 0) = - 1"
    "stokes_matrix_term ex_params2 ex_mixed_cell 0 (Suc 0) 0 = - 1"
    by (simp_all add: stokes_matrix_term_def scalar_product2_def ex_params2_def
        ex_mixed_cell_def upt_2)
  have p: "n_q ex_params2 = 1" "dofs_per_cell ex_params2 = 2" "nu ex_params2 = 1"
    "JxW ex_mixed_cell q = 1" "value_p ex_mixed_cell i q = (if i = 1 then 1 else 0)" for i q
    by (simp_all add: ex_params2_def ex_mixed_cell_def)
  have m00: "system_matrix (stokes_cell_loop 0 ex_mixed_env (ex_state [0, 0])) 0 0 = 1"
    using t [of 0 0] by (simp add: ex_mixed_fields scattered_def upt_2 p ev)
  have m01: "system_matrix (stokes_cell_loop 0 ex_mixed_env (ex_state [0, 0])) 0 1 = - 1"
    using t [of 0 1] by (simp add: ex_mixed_fields scattered_def upt_2 p ev)
  have m10: "system_matrix (stokes_cell_loop 0 ex_mixed_env (ex_state [0, 0])) 1 0 = - 1"
    using t [of 1 0] by (simp add: ex_mixed_fields scattered_def upt_2 p ev)
  have q11: "pressure_mass (stokes_cell_loop 0 ex_mixed_env (ex_state [0, 0])) 1 1 = 1"
    using t [of 1 1] by (simp add: ex_mixed_fields scattered_def upt_2 p)
  have q00: "pressure_mass (stokes_cell_loop 0 ex_mixed_env (ex_state [0, 0])) 0 0 = 0"
    using t [of 0 0] by (simp add: ex_mixed_fields scattered_def upt_2 p)
  show ?thesis
    using t [of 0 0] m00 m01 m10 q11 q00 ex_mixed_pressure_dof by simp
qed

subsection \<open>What the callers do with the solver's outcome\<close>

lemma picard_loop_within_fuel:
  "maxIter - iter s < k \<Longrightarrow> picard_loop_fuel k e s = Some (picard_loop e s)"
proof (induction k arbitrary: s)
  case 0
  then show ?case by simp
next
  case (Suc k)
  show ?case
  proof (cases "iter s < maxIter")
    case False
    then show ?thesis by (simp add: picard_loop_step [of e s])
  next
    case True
    show ?thesis
    proof (cases "picard_cycle e (incremental_assemble e s)")
      case (Inl err)
      then show ?thesis using True by (simp add: picard_loop_step [of e s] Let_def)
    next
      case (Inr r)
      obtain s2 un where r: "r = (s2, un)" by (cases r)
      have it: "iter s2 = iter s"
        using picard_cycle_fields(1) [of e "incremental_assemble e s" s2 un] Inr r
        by (simp add: assemble_fields)
      have "maxIter - iter (s2\<lparr>iter := iter s2 + 1\<rparr>) < k"
        using Suc.prems True it by simp
      then have "picard_loop_fuel k e (s2\<lparr>iter := iter s2 + 1\<rparr>)
                 = Some (picard_loop e (s2\<lparr>iter := iter s2 + 1\<rparr>))"
        by (rule Suc.IH)
      then show ?thesis using True Inr r it
        by (simp add: picard_loop_step [of e s] Let_def)
    qed
  qed
qed

lemma relabel_fields:
  "workers (relabel_counts f e) = workers e"
  "distribute (relabel_counts f e) = distribute e"
  "set_zero (relabel_counts f e) = set_zero e"
  "gmres (relabel_counts f e) A g b = map_sum id (\<lambda>(x, n). (x, f n)) (gmres e A g b)"
  "gmres_block_triangular (relabel_counts f e) A M g b
     = map_sum id (\<lambda>(x, n). (x, f n)) (gmres_block_triangular e A M g b)"
  by (simp_all add: relabel_counts_def)

lemma relabel_assemble: "incremental_assemble (relabel_counts f e) s = incremental_assemble e s"
proof -
  have r: "distribute_local_to_global (relabel_counts f e) = distribute_local_to_global e"
    "cells (relabel_counts f e) = cells e" "prm (relabel_counts f e) = prm e"
    "compress_matrix (relabel_counts f e) = compress_matrix e"
    "compress_vector (relabel_counts f e) = compress_vector e"
    by (simp_all add: relabel_counts_def)
  show ?thesis
    unfolding incremental_assemble_def assemble_cells_def r ..
qed

lemma relabel_cycle: "picard_cycle (relabel_counts f e) s = picard_cycle e s"
  by (cases "gmres e (system_matrix s) (set_zero e (solution_owned s)) (system_rhs s)")
     (auto simp: picard_cycle_def relabel_fields split: prod.splits)

lemma relabel_stokes_solve: "stokes_solve (relabel_counts f e) s = stokes_solve e s"
  by (cases "gmres_block_triangular e (system_matrix s) (pressure_mass s) (solution_owned s)
               (system_rhs s)")
     (auto simp: stokes_solve_def relabel_fields split: prod.splits)

lemma relabel_picard_loop: "picard_loop (relabel_counts f e) s = picard_loop e s"
proof (induction e s rule: picard_loop.induct)
  case (1 e s)
  show ?case
  proof (cases "iter s < maxIter")
    case False
    then show ?thesis by (subst picard_loop_step, subst (2) picard_loop_step) simp
  next
    case True
    show ?thesis
    proof (cases "picard_cycle e (incremental_assemble e s)")
      case (Inl err)
      then show ?thesis using True
        by (subst picard_loop_step, subst (2) picard_loop_step)
           (simp add: relabel_assemble relabel_cycle)
    next
      case (Inr r)
      obtain s2 un where r: "r = (s2, un)" by (cases r)
      have it: "iter s2 = iter s"
        using picard_cycle_fields(1) [of e "incremental_assemble e s" s2 un] Inr r
        by (simp add: assemble_fields)
      show ?thesis
      proof (cases "un < update_tol")
        case True
        then show ?thesis using \<open>iter s < maxIter\<close> Inr r
          by (subst picard_loop_step, subst (2) picard_loop_step)
             (simp add: relabel_assemble relabel_cycle)
      next
        case False
        have ih: "picard_loop (relabel_counts f e) (s2\<lparr>iter := iter s2 + 1\<rparr>)
              = picard_loop e (s2\<lparr>iter := iter s2 + 1\<rparr>)"
          using "1.IH" [OF \<open>iter s < maxIter\<close> refl refl pretest_dead Inr r [symmetric] False] .
        show ?thesis using \<open>iter s < maxIter\<close> Inr r False ih it
          by (subst picard_loop_step, subst (2) picard_loop_step)
             (simp add: relabel_assemble relabel_cycle)
      qed
    qed
  qed
qed

lemma sum_squares_error:
  "sum_squares w v ks acc = Inl err \<Longrightarrow> \<exists>k. err = ExcAccessToNonLocalElement k"
  by (induction ks arbitrary: acc) (auto simp: entry_def split: if_splits)

lemma mpi_allreduce_sum_error:
  "mpi_allreduce_sum rs = Inl err \<Longrightarrow> Inl err \<in> set rs"
  by (induction rs) (auto split: sum.splits)

lemma update_norm_error:
  "update_norm ws v = Inl err \<Longrightarrow> \<exists>k. err = ExcAccessToNonLocalElement k"
proof -
  assume "update_norm ws v = Inl err"
  then have "mpi_allreduce_sum (map (\<lambda>w. local_sum w v) ws) = Inl err"
    by (simp add: update_norm_def split: sum.splits)
  then have "Inl err \<in> set (map (\<lambda>w. local_sum w v) ws)"
    by (rule mpi_allreduce_sum_error)
  then obtain w where "local_sum w v = Inl err" by auto
  then show ?thesis by (auto simp: local_sum_def dest: sum_squares_error)
qed

lemma cycle_error_after_solve:
  assumes "gmres e (system_matrix s) (set_zero e (solution_owned s)) (system_rhs s) = Inr (x, n)"
    and "picard_cycle e s = Inl err"
  shows "\<exists>k. err = ExcAccessToNonLocalElement k"
  using assms
  by (auto simp: picard_cycle_def Let_def split: sum.splits dest: update_norm_error)

lemma cycle_after_solve_stored:
  assumes "gmres e (system_matrix s) (set_zero e (solution_owned s)) (system_rhs s) = Inr (x, n)"
    and "\<forall>w \<in> set (workers e). \<forall>k < length (solution_old s).
           k \<in> locally_owned_dofs w \<union> locally_relevant_dofs w"
  shows "picard_cycle e s =
           Inr (s\<lparr>solution_owned := distribute e x, solution := distribute e x,
                  new_res := map2 (\<lambda>a b. 1 * a + (- 1) * b) (distribute e x) (solution_old s),
                  solution_old := distribute e x\<rparr>,
                sqrt (real (length (workers e))
                      * (\<Sum>y\<leftarrow>map2 (\<lambda>a b. 1 * a + (- 1) * b) (distribute e x) (solution_old s).
                           y * y)))"
proof -
  let ?res = "map2 (\<lambda>a b. 1 * a + (- 1) * b) (distribute e x) (solution_old s)"
  have "update_norm (workers e) ?res
          = Inr (sqrt (real (length (workers e)) * (\<Sum>y\<leftarrow>?res. y * y)))"
    using assms(2) by (intro update_norm_all_stored) simp
  then show ?thesis using assms(1)
    by (simp add: picard_cycle_def Let_def)
qed

lemma solver_error_ends_loop:
  assumes "iter s < maxIter"
    and "gmres e (system_matrix (incremental_assemble e s)) (set_zero e (solution_owned s))
          (system_rhs (incremental_assemble e s)) = Inl err"
  shows "picard_loop e s = Inl err"
  using assms
  by (subst picard_loop_step) (simp add: picard_cycle_def assemble_fields)

text \<open>
  C1, as claimed: a solve that exhausts its budget returns normally, both in the
  Stokes solve and in each inner solve of the Picard loop, and nothing is raised. With
  solvers that answer as the library's do when the control reports failure after one
  step, \<^verbatim>\<open>SolverControl::NoConvergence\<close>, both callers end with that exception. And
  a solver that returns does not make the Picard iteration return: with two workers
  that store one entry each, the solver returns \<open>[5, 5]\<close> and the iteration ends in
  the loop of the update norm, which reads an entry its worker does not store.
\<close>

theorem solver_exception_ends_solve:
  "stokes_solve ex_failing_env (ex_state [0]) = Inl (NoConvergence 1)
   \<and> solve ex_failing_env (ex_state [0]) = Inl (NoConvergence 1)
   \<and> gmres (ex_env_workers ex_split_workers (ex_cell []) [5, 5])
       (system_matrix (incremental_assemble (ex_env_workers ex_split_workers (ex_cell []) [5, 5])
          (ex_state [0, 0])))
       (set_zero (ex_env_workers ex_split_workers (ex_cell []) [5, 5])
          (solution_owned (ex_state [0, 0])))
       (system_rhs (incremental_assemble (ex_env_workers ex_split_workers (ex_cell []) [5, 5])
          (ex_state [0, 0]))) = Inr ([5, 5], 1)
   \<and> solve (ex_env_workers ex_split_workers (ex_cell []) [5, 5]) (ex_state [0, 0])
     = Inl (ExcAccessToNonLocalElement 1)"
proof -
  have "picard_loop ex_failing_env (ex_state [0]) = Inl (NoConvergence 1)"
    by (subst picard_loop_step)
       (simp add: picard_cycle_def ex_failing_env_def ex_state_def maxIter_def)
  moreover have "(ex_state u)\<lparr>iter := 0\<rparr> = ex_state u" for u
    by (simp add: ex_state_def)
  moreover have "picard_loop (ex_env_workers ex_split_workers (ex_cell []) [5, 5])
                   (ex_state [0, 0]) = Inl (ExcAccessToNonLocalElement 1)"
    by (subst picard_loop_step)
       (simp add: picard_cycle_def update_norm_def local_sum_def entry_def upt_2
          assemble_fields ex_env_workers_def ex_split_workers_def ex_env_def ex_state_def
          maxIter_def)
  ultimately show ?thesis
    by (simp add: solve_def stokes_solve_def ex_failing_env_def ex_env_workers_def ex_env_def)
qed

text \<open>
  C1, amended. Neither caller tests or handles the solver's outcome.
  \<^verbatim>\<open>Stokes<dim>::solve\<close> fails exactly when its solver call raises, with the same
  exception, and otherwise stores the returned vector as the solution. The results of
  \<^verbatim>\<open>Stokes<dim>::solve\<close> and of the Picard loop do not depend on the step counts the
  solvers report. In a Picard iteration, after a solver call that returns, the
  iteration can only fail with \<^verbatim>\<open>ExcAccessToNonLocalElement\<close>; when every worker
  stores every entry below the length of the previous iterate it does not fail, and
  its solution is the returned vector with the constraints distributed. In an
  iteration that begins, an exception of the solver ends the loop with that
  exception. The loop ends within \<open>maxIter - iter + 1\<close> passes, the solver being a
  function that returns or raises.
\<close>

theorem solver_outcome_passed_on:
  "(isl (stokes_solve e s0)
      \<longleftrightarrow> isl (gmres_block_triangular e (system_matrix s0) (pressure_mass s0)
                 (solution_owned s0) (system_rhs s0)))
   \<and> (\<forall>x n. gmres_block_triangular e (system_matrix s0) (pressure_mass s0)
                (solution_owned s0) (system_rhs s0) = Inr (x, n)
          \<longrightarrow> map_sum id solution (stokes_solve e s0) = Inr x)
   \<and> (\<forall>err. gmres_block_triangular e (system_matrix s0) (pressure_mass s0)
                (solution_owned s0) (system_rhs s0) = Inl err
          \<longrightarrow> stokes_solve e s0 = Inl err)
   \<and> stokes_solve (relabel_counts f e) s0 = stokes_solve e s0
   \<and> picard_loop (relabel_counts f e) s = picard_loop e s
   \<and> (\<forall>x n err. gmres e (system_matrix (incremental_assemble e s))
                   (set_zero e (solution_owned s)) (system_rhs (incremental_assemble e s))
                 = Inr (x, n)
               \<and> picard_cycle e (incremental_assemble e s) = Inl err
          \<longrightarrow> (\<exists>k. err = ExcAccessToNonLocalElement k))
   \<and> (\<forall>x n. gmres e (system_matrix (incremental_assemble e s))
                (set_zero e (solution_owned s)) (system_rhs (incremental_assemble e s))
              = Inr (x, n)
            \<and> (\<forall>w \<in> set (workers e). \<forall>k < length (solution_old s).
                  k \<in> locally_owned_dofs w \<union> locally_relevant_dofs w)
          \<longrightarrow> map_sum id (\<lambda>r. solution (fst r)) (picard_cycle e (incremental_assemble e s))
              = Inr (distribute e x))
   \<and> (\<forall>err. iter s < maxIter
            \<and> gmres e (system_matrix (incremental_assemble e s))
                (set_zero e (solution_owned s)) (system_rhs (incremental_assemble e s))
              = Inl err
          \<longrightarrow> picard_loop e s = Inl err)
   \<and> picard_loop_fuel (Suc (maxIter - iter s)) e s = Some (picard_loop e s)"
proof -
  let ?g = "gmres_block_triangular e (system_matrix s0) (pressure_mass s0)
              (solution_owned s0) (system_rhs s0)"
  have a: "isl (stokes_solve e s0) \<longleftrightarrow> isl ?g"
    by (cases ?g) (auto simp: stokes_solve_def)
  have b: "\<forall>x n. ?g = Inr (x, n) \<longrightarrow> map_sum id solution (stokes_solve e s0) = Inr x"
    by (simp add: stokes_solve_def)
  have c: "\<forall>err. ?g = Inl err \<longrightarrow> stokes_solve e s0 = Inl err"
    by (simp add: stokes_solve_def)
  let ?a = "incremental_assemble e s"
  have d: "\<forall>x n err. gmres e (system_matrix ?a) (set_zero e (solution_owned s)) (system_rhs ?a)
                 = Inr (x, n) \<and> picard_cycle e ?a = Inl err
          \<longrightarrow> (\<exists>k. err = ExcAccessToNonLocalElement k)"
    using cycle_error_after_solve [of e ?a] by (simp add: assemble_fields)
  have e': "\<forall>x n. gmres e (system_matrix ?a) (set_zero e (solution_owned s)) (system_rhs ?a)
              = Inr (x, n)
            \<and> (\<forall>w \<in> set (workers e). \<forall>k < length (solution_old s).
                  k \<in> locally_owned_dofs w \<union> locally_relevant_dofs w)
          \<longrightarrow> map_sum id (\<lambda>r. solution (fst r)) (picard_cycle e ?a) = Inr (distribute e x)"
  proof (intro allI impI, elim conjE)
    fix x n
    assume g: "gmres e (system_matrix ?a) (set_zero e (solution_owned s)) (system_rhs ?a)
                 = Inr (x, n)"
      and st: "\<forall>w \<in> set (workers e). \<forall>k < length (solution_old s).
                  k \<in> locally_owned_dofs w \<union> locally_relevant_dofs w"
    show "map_sum id (\<lambda>r. solution (fst r)) (picard_cycle e ?a) = Inr (distribute e x)"
      using cycle_after_solve_stored [of e ?a x n] g st by (simp add: assemble_fields)
  qed
  have f': "\<forall>err. iter s < maxIter
            \<and> gmres e (system_matrix ?a) (set_zero e (solution_owned s)) (system_rhs ?a)
              = Inl err
          \<longrightarrow> picard_loop e s = Inl err"
    using solver_error_ends_loop by blast
  show ?thesis
    using a b c d e' f' relabel_stokes_solve [of f e s0] relabel_picard_loop [of f e s]
      picard_loop_within_fuel [of s "Suc (maxIter - iter s)" e]
    by blast
qed

theorem solver_outcome_passed_on_witness:
  "stokes_solve (ex_env (ex_cell []) [5]) (ex_state [- 1])
     = Inr ((ex_state [- 1])\<lparr>solution_owned := [5], solution := [5]\<rparr>)
   \<and> map_sum id (\<lambda>r. solution (fst r))
       (picard_cycle (ex_env (ex_cell []) [5])
          (incremental_assemble (ex_env (ex_cell []) [5]) (ex_state [- 1]))) = Inr [5]
   \<and> picard_loop ex_failing_env (ex_state [0]) = Inl (NoConvergence 1)"
proof -
  let ?e = "ex_env (ex_cell []) [5]" and ?s = "ex_state [- 1]"
  have h2: "\<forall>w \<in> set (workers ?e). \<forall>k < length (solution_old ?s).
           k \<in> locally_owned_dofs w \<union> locally_relevant_dofs w"
    by (simp add: ex_env_def ex_state_def)
  have g1: "stokes_solve ?e ?s = Inr (?s\<lparr>solution_owned := [5], solution := [5]\<rparr>)"
    by (simp add: stokes_solve_def ex_env_def)
  have g2: "gmres ?e (system_matrix (incremental_assemble ?e ?s))
              (set_zero ?e (solution_owned ?s)) (system_rhs (incremental_assemble ?e ?s))
            = Inr ([5], 1)"
    by (simp add: ex_env_def)
  have g4: "distribute ?e [5] = [5]" by (simp add: ex_env_def)
  have f1: "iter (ex_state [0]) < maxIter" by (simp add: ex_state_def maxIter_def)
  have f2: "gmres ex_failing_env
              (system_matrix (incremental_assemble ex_failing_env (ex_state [0])))
              (set_zero ex_failing_env (solution_owned (ex_state [0])))
              (system_rhs (incremental_assemble ex_failing_env (ex_state [0])))
            = Inl (NoConvergence 1)"
    by (simp add: ex_failing_env_def)
  have p1: "map_sum id (\<lambda>r. solution (fst r)) (picard_cycle ?e (incremental_assemble ?e ?s))
            = Inr [5]"
    using solver_outcome_passed_on [of ?e ?s id ?s] g2 h2 g4 by metis
  have p2: "picard_loop ex_failing_env (ex_state [0]) = Inl (NoConvergence 1)"
    using solver_outcome_passed_on [of ex_failing_env "ex_state [0]" id "ex_state [0]"] f1 f2
    by blast
  show ?thesis using g1 p1 p2 by simp
qed

subsection \<open>Iterations and exits of the Picard loop\<close>

lemma update_self_zero:
  "(\<Sum>x\<leftarrow>map2 (\<lambda>a b. 1 * a + (- 1) * b) u u. x * x) = (0::real)"
proof -
  have "map2 (\<lambda>a b. 1 * a + (- 1) * b) u u = map (\<lambda>a. (0::real)) u"
    by (induction u) simp_all
  then show ?thesis by (simp add: comp_def)
qed

lemma fixed_point_cycle:
  assumes "gmres e (system_matrix s1) (set_zero e (solution_owned s1)) (system_rhs s1) = Inr (x, n)"
    and "distribute e x = solution_old s1"
    and "\<forall>w \<in> set (workers e). \<forall>k < length (solution_old s1).
           k \<in> locally_owned_dofs w \<union> locally_relevant_dofs w"
  shows "\<exists>s2. picard_cycle e s1 = Inr (s2, 0) \<and> iter s2 = iter s1
           \<and> solution s2 = solution_old s1"
proof -
  let ?res = "map2 (\<lambda>a b. 1 * a + (- 1) * b) (solution_old s1) (solution_old s1)"
  have "update_norm (workers e) ?res
        = Inr (sqrt (real (length (workers e)) * (\<Sum>x\<leftarrow>?res. x * x)))"
    by (rule update_norm_all_stored) (use assms(3) in simp)
  then have "update_norm (workers e) ?res = Inr 0"
    by (simp only: update_self_zero) simp
  then show ?thesis using assms(1,2)
    by (simp add: picard_cycle_def Let_def)
qed

lemma picard_loop_fixed_point:
  assumes "iter s < maxIter"
    and "gmres e (system_matrix (incremental_assemble e s)) (set_zero e (solution_owned s))
           (system_rhs (incremental_assemble e s)) = Inr (x, n)"
    and "distribute e x = solution_old s"
    and "\<forall>w \<in> set (workers e). \<forall>k < length (solution_old s).
           k \<in> locally_owned_dofs w \<union> locally_relevant_dofs w"
  shows "\<exists>s'. picard_cycle e (incremental_assemble e s) = Inr (s', 0)
              \<and> picard_loop e s = Inr s' \<and> iter s' = iter s
              \<and> solution s' = solution_old s"
proof -
  let ?s1 = "incremental_assemble e s"
  obtain s2 where c: "picard_cycle e ?s1 = Inr (s2, 0)" "iter s2 = iter ?s1"
    "solution s2 = solution_old ?s1"
    using fixed_point_cycle [of e ?s1 x n] assms(2-4) by (auto simp: assemble_fields)
  have "picard_loop e s = Inr s2"
    using assms(1) c(1) by (subst picard_loop_step) (simp add: update_tol_def)
  then show ?thesis using c
    by (simp add: assemble_fields)
qed

lemma res_minus: "map2 (\<lambda>a b. 1 * a + (- 1) * b) u v = map2 (\<lambda>a b. a - b) u (v :: real list)"
proof -
  have "(\<lambda>a b. 1 * a + (- 1) * b) = (\<lambda>a b. a - (b::real))"
    by (intro ext) simp
  then show ?thesis by simp
qed


lemma fold_skip_filter:
  "fold (\<lambda>c z. if \<not> P c then z else F c z) cs z = fold F (filter P cs) z"
  by (induction cs arbitrary: z) simp_all

lemma incremental_assemble_system:
  "system_matrix (incremental_assemble e s)
     = compress_matrix e
         (fst (fold (\<lambda>c. distribute_local_to_global e
                           (incremental_cell (prm e) p_out (solution_old s) c) (dof_indices c))
                 (filter is_locally_owned (cells e)) ((\<lambda>_ _. 0), (\<lambda>_. 0))))"
  "system_rhs (incremental_assemble e s)
     = compress_vector e
         (snd (fold (\<lambda>c. distribute_local_to_global e
                           (incremental_cell (prm e) p_out (solution_old s) c) (dof_indices c))
                 (filter is_locally_owned (cells e)) ((\<lambda>_ _. 0), (\<lambda>_. 0))))"
  by (simp_all add: incremental_assemble_def assemble_cells_def Let_def fold_skip_filter)


lemma picard_loop_error_source:
  "picard_loop e s = Inl err \<Longrightarrow>
     (\<exists>k. err = ExcAccessToNonLocalElement k) \<or> (\<exists>A g b. gmres e A g b = Inl err)"
proof (induction e s rule: picard_loop.induct)
  case (1 e s)
  let ?a = "incremental_assemble e s"
  have lt: "iter s < maxIter"
    using "1.prems" by (subst (asm) picard_loop_step) (auto split: if_splits)
  show ?case
  proof (cases "picard_cycle e ?a")
    case (Inl err')
    then have "err' = err" using "1.prems" lt by (subst (asm) picard_loop_step) simp
    show ?thesis
    proof (cases "gmres e (system_matrix ?a) (set_zero e (solution_owned ?a)) (system_rhs ?a)")
      case (Inl err'')
      then have "err'' = err" using \<open>picard_cycle e ?a = Inl err'\<close> \<open>err' = err\<close>
        by (simp add: picard_cycle_def)
      then show ?thesis using Inl by blast
    next
      case (Inr r)
      obtain x n where "r = (x, n)" by (cases r)
      then show ?thesis
        using cycle_error_after_solve [of e ?a x n err] Inr \<open>picard_cycle e ?a = Inl err'\<close>
          \<open>err' = err\<close> by simp
    qed
  next
    case (Inr r)
    obtain s2 un where r: "r = (s2, un)" by (cases r)
    have nt: "\<not> un < update_tol"
      using "1.prems" lt Inr r by (subst (asm) picard_loop_step) (auto split: if_splits)
    have it: "iter s2 = iter s"
      using picard_cycle_fields(1) [of e ?a s2 un] Inr r by (simp add: assemble_fields)
    have "picard_loop e (s2\<lparr>iter := iter s2 + 1\<rparr>) = Inl err"
      using "1.prems" lt Inr r nt it by (subst (asm) picard_loop_step) simp
    then show ?thesis
      using "1.IH" [OF lt refl refl pretest_dead Inr r [symmetric] nt] by simp
  qed
qed

lemma picard_loop_returns_at_start:
  assumes "iter s < maxIter"
    and "gmres e (system_matrix (incremental_assemble e s)) (set_zero e (solution_owned s))
           (system_rhs (incremental_assemble e s)) = Inr (x, n)"
    and "picard_loop e s = Inr s'" and "iter s' = iter s"
  shows "solution s' = distribute e x
         \<and> new_res s' = map2 (\<lambda>a b. a - b) (distribute e x) (solution_old s)"
proof -
  let ?a = "incremental_assemble e s"
  obtain s2 un where cyc: "picard_cycle e ?a = Inr (s2, un)"
    using assms(1,3) by (subst (asm) picard_loop_step) (auto split: sum.splits)
  have f: "solution s2 = distribute e x"
    "new_res s2 = map2 (\<lambda>a b. a - b) (distribute e x) (solution_old s)"
    using cyc assms(2)
    by (auto simp: picard_cycle_def Let_def assemble_fields res_minus split: sum.splits)
  have it: "iter s2 = iter s"
    using picard_cycle_fields(1) [OF cyc] by (simp add: assemble_fields)
  show ?thesis
  proof (cases "un < update_tol")
    case True
    then have "s' = s2" using assms(1,3) cyc by (subst (asm) picard_loop_step) simp
    then show ?thesis using f by simp
  next
    case False
    let ?s3 = "s2\<lparr>iter := iter s2 + 1\<rparr>"
    have nx: "picard_loop e ?s3 = Inr s'"
      using assms(1,3) cyc False it by (subst (asm) picard_loop_step) simp
    have "iter ?s3 \<le> iter s'"
    proof (cases "iter ?s3 < maxIter")
      case True
      then show ?thesis using picard_loop_exit [OF nx] by simp
    next
      case False
      then have "s' = ?s3" using nx by (subst (asm) picard_loop_step) simp
      then show ?thesis by simp
    qed
    then have False using assms(4) it by simp
    then show ?thesis ..
  qed
qed





subsection \<open>The test before the solve\<close>

lemma ex_local:
  "local_matrix (incremental_cell ex_params pout [u] (ex_cell [])) 0 0 = 1 + 2 * u"
  "local_rhs (incremental_cell ex_params pout [u] (ex_cell [])) 0 = u * u"
  by (simp_all add: incremental_cell_def incremental_volume_def incremental_i_def
      incremental_ij_def neumann_faces_def Let_def ex_defs upt_2 add_entry_def add_at_def
      dot_def times12_def transpose2_def scalar_product2_def)

lemma ex_assemble:
  "system_matrix (incremental_assemble (ex_env (ex_cell []) x) (ex_state [u])) 0 0 = 1 + 2 * u"
  "system_rhs (incremental_assemble (ex_env (ex_cell []) x) (ex_state [u])) 0 = u * u"
  using ex_local [of p_out u]
  by (simp_all add: incremental_assemble_def assemble_cells_def Let_def ex_env_def ex_state_def
      matrix_add_def vector_add_def add_entry_def add_at_def
      ex_cell_def [of "[]", THEN arg_cong [of _ _ is_locally_owned]]
      ex_cell_def [of "[]", THEN arg_cong [of _ _ dof_indices]])

text \<open>
  C9, as claimed: the loop can only terminate at the norm test after the solve or at
  the iteration cap. With a solver that raises, the loop, and the loop without the
  test before the solve, end at iteration 0 with the exception; no norm is measured.
\<close>

theorem picard_loop_exits_with_solver_exception:
  "iter (ex_state [0]) < maxIter
   \<and> picard_loop ex_failing_env (ex_state [0]) = Inl (NoConvergence 1)
   \<and> picard_loop_live ex_failing_env (ex_state [0]) = Inl (NoConvergence 1)
   \<and> measured_norm ex_failing_env (ex_state [0]) = Inl (NoConvergence 1)"
proof -
  have c: "picard_cycle ex_failing_env s1 = Inl (NoConvergence 1)" for s1
    by (simp add: picard_cycle_def ex_failing_env_def)
  have i: "iter (ex_state [0]) < maxIter" by (simp add: ex_state_def maxIter_def)
  have a: "picard_loop ex_failing_env (ex_state [0]) = Inl (NoConvergence 1)"
    using i by (subst picard_loop_step) (simp add: c)
  have b: "picard_loop_live ex_failing_env (ex_state [0]) = Inl (NoConvergence 1)"
    using i by (subst picard_loop_live.simps) (simp add: c)
  show ?thesis using i a b by (simp add: measured_norm_def c)
qed

text \<open>
  C9, amended. For a loop entered with the counter below the cap. The test before the
  solve compares \<open>update_tol + 1\<close> with \<open>update_tol\<close> and never holds: the loop is
  the same function as the loop without that test. The iteration assembles the
  system of all locally owned cells from the previous iterate (the element systems
  scattered from zero, then compressed) and calls the solver on it: an exception of
  that call ends the loop with that exception, and when the call returns and the
  loop returns with the counter unchanged, the solution is the solver's vector with
  the constraints distributed and \<^verbatim>\<open>new_res\<close> its difference from the previous
  iterate. The loop returns only with the counter at the cap or with a measured norm
  of the last update below the tolerance, and it fails only with
  \<^verbatim>\<open>ExcAccessToNonLocalElement\<close> or with an exception of a solver call.
\<close>

theorem pretest_branch_unreachable:
  assumes "iter s < maxIter"
  shows "\<not> update_tol + 1 < update_tol
    \<and> picard_loop e s = picard_loop_live e s
    \<and> system_matrix (incremental_assemble e s)
        = compress_matrix e
            (fst (fold (\<lambda>c. distribute_local_to_global e
                              (incremental_cell (prm e) p_out (solution_old s) c)
                              (dof_indices c))
                    (filter is_locally_owned (cells e)) ((\<lambda>_ _. 0), (\<lambda>_. 0))))
    \<and> system_rhs (incremental_assemble e s)
        = compress_vector e
            (snd (fold (\<lambda>c. distribute_local_to_global e
                              (incremental_cell (prm e) p_out (solution_old s) c)
                              (dof_indices c))
                    (filter is_locally_owned (cells e)) ((\<lambda>_ _. 0), (\<lambda>_. 0))))
    \<and> (\<forall>err. gmres e (system_matrix (incremental_assemble e s))
                 (set_zero e (solution_owned s)) (system_rhs (incremental_assemble e s))
               = Inl err
         \<longrightarrow> picard_loop e s = Inl err)
    \<and> (\<forall>x n s'. gmres e (system_matrix (incremental_assemble e s))
                    (set_zero e (solution_owned s)) (system_rhs (incremental_assemble e s))
                  = Inr (x, n)
                \<and> picard_loop e s = Inr s' \<and> iter s' = iter s
         \<longrightarrow> solution s' = distribute e x
             \<and> new_res s' = map2 (\<lambda>a b. a - b) (distribute e x) (solution_old s))
    \<and> (\<forall>s'. picard_loop e s = Inr s'
         \<longrightarrow> iter s' = maxIter
             \<or> (\<exists>d. update_norm (workers e) (new_res s') = Inr d \<and> d < update_tol))
    \<and> (\<forall>err. picard_loop e s = Inl err
         \<longrightarrow> (\<exists>k. err = ExcAccessToNonLocalElement k)
             \<or> (\<exists>A g b. gmres e A g b = Inl err))"
proof -
  have a: "\<not> update_tol + 1 < update_tol" by simp
  have x: "iter s' = maxIter
             \<or> (\<exists>d. update_norm (workers e) (new_res s') = Inr d \<and> d < update_tol)"
    if "picard_loop e s = Inr s'" for s'
    using picard_loop_exit [OF that assms] by auto
  show ?thesis
    using a picard_loop_eq_live [of e s] incremental_assemble_system [of e s]
      solver_error_ends_loop [OF assms, of e]
      picard_loop_returns_at_start [OF assms, of e] x picard_loop_error_source [of e s]
    by blast
qed

theorem pretest_branch_unreachable_witness:
  "iter (ex_state [- 1]) < maxIter
   \<and> picard_loop (ex_env (ex_cell []) [- 1]) (ex_state [- 1])
     = picard_loop_live (ex_env (ex_cell []) [- 1]) (ex_state [- 1])
   \<and> system_matrix (incremental_assemble (ex_env (ex_cell []) [- 1]) (ex_state [- 1])) 0 0
     = - 1
   \<and> system_rhs (incremental_assemble (ex_env (ex_cell []) [- 1]) (ex_state [- 1])) 0 = 1
   \<and> map_sum id solution (picard_loop (ex_env (ex_cell []) [- 1]) (ex_state [- 1]))
     = Inr [- 1]
   \<and> map_sum id iter (picard_loop (ex_env (ex_cell []) [- 1]) (ex_state [- 1])) = Inr 0"
proof -
  let ?e = "ex_env (ex_cell []) [- 1]" and ?s = "ex_state [- 1]"
  have h1: "iter ?s < maxIter" by (simp add: ex_state_def maxIter_def)
  have "\<exists>s'. picard_cycle ?e (incremental_assemble ?e ?s) = Inr (s', 0)
              \<and> picard_loop ?e ?s = Inr s' \<and> iter s' = iter ?s
              \<and> solution s' = solution_old ?s"
    by (rule picard_loop_fixed_point [where x = "[- 1]" and n = 1])
       (simp_all add: ex_env_def ex_state_def maxIter_def)
  then obtain s' where s': "picard_loop ?e ?s = Inr s'" "iter s' = iter ?s"
    "solution s' = solution_old ?s" by auto
  have l: "map_sum id solution (picard_loop ?e ?s) = Inr [- 1]"
    "map_sum id iter (picard_loop ?e ?s) = Inr 0"
    using s' by (simp_all add: ex_state_def)
  show ?thesis
    using pretest_branch_unreachable [OF h1, of ?e] h1 l ex_assemble [of "[- 1]" "- 1"]
    by simp
qed

subsection \<open>The loop at a fixed point\<close>















end
